theory Spec2Isabelle
  imports Complex_Main "HOL-Library.Word" "HOL-Library.Multiset" "HOL-Library.AList"
    "HOL-Library.Sublist"
begin

section \<open>Python values and dictionaries\<close>

text \<open>
  The book dictionaries of the crawler hold \<^verbatim>\<open>None\<close>, strings, integers and floats.  A
  float is represented by the rational number it denotes (NaN and the infinities are left
  out), so that Python's \<^verbatim>\<open>==\<close> between numbers is equality of the denoted numbers,
  also across \<^verbatim>\<open>int\<close> and \<^verbatim>\<open>float\<close>.  A dictionary is an association list in
  insertion order; \<^verbatim>\<open>d.get(k)\<close> yields \<^verbatim>\<open>None\<close> for a missing key.
\<close>

datatype pyval = PyNone | PyStr string | PyInt int | PyFloat rat

type_synonym pydict = "(string \<times> pyval) list"

definition py_get :: "pydict \<Rightarrow> string \<Rightarrow> pyval" where
  "py_get d k = (case map_of d k of None \<Rightarrow> PyNone | Some v \<Rightarrow> v)"

definition py_get_default :: "pydict \<Rightarrow> string \<Rightarrow> pyval \<Rightarrow> pyval" where
  "py_get_default d k dflt = (case map_of d k of None \<Rightarrow> dflt | Some v \<Rightarrow> v)"

fun py_eq :: "pyval \<Rightarrow> pyval \<Rightarrow> bool" where
  "py_eq PyNone PyNone = True"
| "py_eq (PyStr a) (PyStr b) = (a = b)"
| "py_eq (PyInt i) (PyInt j) = (i = j)"
| "py_eq (PyFloat x) (PyFloat y) = (x = y)"
| "py_eq (PyInt i) (PyFloat y) = (of_int i = y)"
| "py_eq (PyFloat x) (PyInt j) = (x = of_int j)"
| "py_eq _ _ = False"

definition py_ne :: "pyval \<Rightarrow> pyval \<Rightarrow> bool" where
  "py_ne a b = (\<not> py_eq a b)"

text \<open>
  \<^verbatim>\<open>str(v)\<close>: the string itself for a string, \<^verbatim>\<open>"None"\<close> for \<^verbatim>\<open>None\<close>; the rendering of
  numbers is a parameter.
\<close>

definition py_str :: "(pyval \<Rightarrow> string) \<Rightarrow> pyval \<Rightarrow> string" where
  "py_str num_str v = (case v of PyNone \<Rightarrow> ''None'' | PyStr s \<Rightarrow> s | _ \<Rightarrow> num_str v)"

type_synonym url = string
type_synonym html = string

datatype error = DbConnectError | UncaughtException | ValidationError

section \<open>The models of \<^verbatim>\<open>api/models.py\<close>\<close>

datatype CrawlStatus = SUCCESS | FAILED | PARTIAL

datatype ChangeType = NEW_BOOK | PRICE_CHANGE | AVAILABILITY_CHANGE | DESCRIPTION_CHANGE | OTHER

text \<open>
  The timestamps that the models take from the wall clock (\<^verbatim>\<open>default_factory=datetime.utcnow\<close>)
  are not part of the records below.
\<close>

record CrawlMetadata =
  meta_status :: CrawlStatus
  source_url :: url

record Book =
  book_data :: pydict
  crawl_metadata :: CrawlMetadata
  html_snapshot_id :: "string option"

record ChangeLog =
  book_id :: string
  book_name :: string
  change_type :: ChangeType
  old_value :: "pydict option"
  new_value :: pydict

record CrawlProgress =
  total_pages :: int
  completed_pages :: int
  failed_pages :: "url list"
  status :: CrawlStatus

text \<open>
  \<^verbatim>\<open>ChangeLog(book_id=..., book_name=..., ...)\<close>: the field \<^verbatim>\<open>book_name\<close> is declared
  \<^verbatim>\<open>str\<close>, and the value given for it comes from a dictionary, so that the construction
  raises a validation error when that value is not a string.
\<close>

definition ChangeLog_init ::
  "string \<Rightarrow> pyval \<Rightarrow> ChangeType \<Rightarrow> pydict \<Rightarrow> pydict \<Rightarrow> error + ChangeLog" where
  "ChangeLog_init bid bname ct ov nv =
     (case bname of
        PyStr n \<Rightarrow> Inr \<lparr>book_id = bid, book_name = n, change_type = ct,
                        old_value = Some ov, new_value = nv\<rparr>
      | _ \<Rightarrow> Inl ValidationError)"

section \<open>The fingerprint: \<^verbatim>\<open>BookStorage.generate_content_hash\<close>\<close>

text \<open>
  \<^verbatim>\<open>json.dumps(..., sort_keys=True)\<close> and SHA-256 (applied to the UTF-8 encoding of the
  string) are library functions and are parameters here.  The digest of SHA-256 has 256
  bits; \<^verbatim>\<open>hexdigest()\<close> writes it as 64 hexadecimal digits.
\<close>

definition relevant_fields :: "pydict \<Rightarrow> pydict" where
  "relevant_fields bd =
     [(''name'', py_get bd ''name''),
      (''price_incl_tax'', py_get bd ''price_incl_tax''),
      (''price_excl_tax'', py_get bd ''price_excl_tax''),
      (''availability'', py_get bd ''availability''),
      (''description'', py_get bd ''description'')]"

definition hex_digit :: "nat \<Rightarrow> char" where
  "hex_digit n = ''0123456789abcdef'' ! n"

definition hexdigest :: "256 word \<Rightarrow> string" where
  "hexdigest w = map (\<lambda>i. hex_digit (unat (take_bit 4 (drop_bit (4 * (63 - i)) w)))) [0..<64]"

definition generate_content_hash ::
  "(pydict \<Rightarrow> string) \<Rightarrow> (string \<Rightarrow> 256 word) \<Rightarrow> pydict \<Rightarrow> string" where
  "generate_content_hash json_dumps sha256 bd =
     (let json_str = json_dumps (relevant_fields bd)
      in hexdigest (sha256 json_str))"

section \<open>The change detector: \<^verbatim>\<open>scheduler/change_detector.py\<close>\<close>

text \<open>
  \<^verbatim>\<open>changes.append(ChangeLog(...))\<close>: the construction may raise, and then
  \<^verbatim>\<open>detect_changes\<close> ends with that exception.
\<close>

definition append_change :: "ChangeLog list \<Rightarrow> error + ChangeLog \<Rightarrow> error + ChangeLog list" where
  "append_change changes c = (case c of Inl e \<Rightarrow> Inl e | Inr x \<Rightarrow> Inr (changes @ [x]))"

definition detect_changes :: "(pyval \<Rightarrow> string) \<Rightarrow> pydict \<Rightarrow> pydict \<Rightarrow> error + ChangeLog list" where
  "detect_changes num_str old_book new_book =
     (let book_id = py_str num_str (py_get_default old_book ''_id'' (PyStr ''''));
          book_name = py_get_default new_book ''name'' (PyStr ''Unknown'')
      in
      case (if py_ne (py_get old_book ''price_incl_tax'') (py_get new_book ''price_incl_tax'')
            then append_change []
                   (ChangeLog_init book_id book_name PRICE_CHANGE
                      [(''price_incl_tax'', py_get old_book ''price_incl_tax''),
                       (''price_excl_tax'', py_get old_book ''price_excl_tax'')]
                      [(''price_incl_tax'', py_get new_book ''price_incl_tax''),
                       (''price_excl_tax'', py_get new_book ''price_excl_tax'')])
            else Inr [])
      of Inl e \<Rightarrow> Inl e
       | Inr changes1 \<Rightarrow>
     (case (if py_ne (py_get old_book ''availability'') (py_get new_book ''availability'')
            then append_change changes1
                   (ChangeLog_init book_id book_name AVAILABILITY_CHANGE
                      [(''availability'', py_get old_book ''availability'')]
                      [(''availability'', py_get new_book ''availability'')])
            else Inr changes1)
      of Inl e \<Rightarrow> Inl e
       | Inr changes2 \<Rightarrow>
           (if py_ne (py_get old_book ''description'') (py_get new_book ''description'')
            then append_change changes2
                   (ChangeLog_init book_id book_name DESCRIPTION_CHANGE
                      [(''description'', py_get old_book ''description'')]
                      [(''description'', py_get new_book ''description'')])
            else Inr changes2)))"

text \<open>
  \<^verbatim>\<open>run_change_detection\<close> reads the collection \<^verbatim>\<open>books\<close> and writes to the collection
  \<^verbatim>\<open>change_log\<close>.  Every stored book has its address (the collection has a unique index
  on \<^verbatim>\<open>url\<close>), so a stored document is given with it.  The clock is a parameter.
\<close>

record database =
  books :: "(url \<times> pydict) list"
  change_log :: "ChangeLog list"

record summary =
  timestamp :: string
  total_books_checked :: int
  new_books :: int
  changes_detected :: int
  change_types :: "(ChangeType \<times> int) list"

definition count_change_type :: "(ChangeType \<times> int) list \<Rightarrow> ChangeLog \<Rightarrow> (ChangeType \<times> int) list" where
  "count_change_type cts change =
     AList.update (change_type change)
       ((case map_of cts (change_type change) of None \<Rightarrow> 0 | Some n \<Rightarrow> n) + 1) cts"

definition run_change_detection :: "string \<Rightarrow> database \<Rightarrow> summary \<times> database" where
  "run_change_detection now db =
     (let stored_books = foldl (\<lambda>m (u, book). AList.update u book m) [] (books db);
          stored_urls = map fst stored_books;
          changes_detected = [];
          new_books_count = 0;
          db' = (if changes_detected \<noteq> []
                 then foldl (\<lambda>d change. d\<lparr>change_log := change_log d @ [change]\<rparr>) db changes_detected
                 else db);
          summary = \<lparr>timestamp = now,
                     total_books_checked = int (length stored_urls),
                     new_books = new_books_count,
                     changes_detected = int (length changes_detected),
                     change_types = foldl count_change_type [] changes_detected\<rparr>
      in (summary, db'))"

section \<open>The fetcher: \<^verbatim>\<open>BookScraper.fetch_with_retry\<close>\<close>

text \<open>
  One call of \<^verbatim>\<open>client.get(url, timeout=...)\<close> followed by \<^verbatim>\<open>raise_for_status()\<close> and
  \<^verbatim>\<open>.text\<close> has three kinds of outcome: the text of the response, an exception that the
  handler of \<^verbatim>\<open>fetch_with_retry\<close> catches (\<^verbatim>\<open>httpx.HTTPError\<close>,
  \<^verbatim>\<open>httpx.TimeoutException\<close>), or any other exception, which leaves the function.
\<close>

datatype response = Response html | HTTPError | OtherException

text \<open>
  What one logical fetch does besides returning: taking and giving back the permit of
  \<^verbatim>\<open>self.semaphore\<close>, the request, the two log lines and the backoff sleep (in seconds).
\<close>

datatype event =
    Acquire
  | Request url
  | Release
  | LogWarning url nat
  | Sleep nat
  | LogError url

text \<open>
  The values of \<^verbatim>\<open>utilities/config.py\<close> that the scraper reads, with their defaults, and
  the fields of \<^verbatim>\<open>BookScraper\<close>.  \<^verbatim>\<open>failed_urls\<close> is a Python set; it is kept as a
  duplicate-free list, in the order of insertion.
\<close>

record settings =
  crawler_concurrency :: int
  crawler_max_retries :: int
  crawler_timeout_seconds :: int
  settings_base_url :: url

definition default_settings :: settings where
  "default_settings =
     \<lparr>crawler_concurrency = 10, crawler_max_retries = 3, crawler_timeout_seconds = 30,
      settings_base_url = ''https://books.toscrape.com''\<rparr>"

record scraper =
  base_url :: url
  max_retries :: int
  timeout :: int
  concurrency :: int
  total_books :: int
  completed_books :: int
  failed_urls :: "url list"

definition BookScraper_init :: "settings \<Rightarrow> scraper" where
  "BookScraper_init cfg =
     \<lparr>base_url = settings_base_url cfg, max_retries = crawler_max_retries cfg,
      timeout = crawler_timeout_seconds cfg, concurrency = crawler_concurrency cfg,
      total_books = 0, completed_books = 0, failed_urls = []\<rparr>"

text \<open>
  The network is a parameter: \<open>client_get u n\<close> is the outcome of the request for \<open>u\<close> made
  by the attempt with retry count \<open>n\<close>.  The permit is taken by
  \<^verbatim>\<open>async with self.semaphore\<close> around the request only: it is given back when the block
  is left, by \<^verbatim>\<open>return\<close> or by the exception, before the handler runs.
\<close>

function fetch_with_retry ::
  "(url \<Rightarrow> nat \<Rightarrow> response) \<Rightarrow> scraper \<Rightarrow> url \<Rightarrow> nat \<Rightarrow> (error + html option) \<times> event list"
where
  "fetch_with_retry client_get self u retries =
     (case client_get u retries of
        Response text \<Rightarrow> (Inr (Some text), [Acquire, Request u, Release])
      | OtherException \<Rightarrow> (Inl UncaughtException, [Acquire, Request u, Release])
      | HTTPError \<Rightarrow>
          if int retries < max_retries self then
            let wait_time = 2 ^ retries;
                (r, evs) = fetch_with_retry client_get self u (retries + 1)
            in (r, [Acquire, Request u, Release, LogWarning u wait_time, Sleep wait_time] @ evs)
          else (Inr None, [Acquire, Request u, Release, LogError u]))"
  by pat_completeness auto
termination
  by (relation "measure (\<lambda>(client_get, self, u, retries). nat (max_retries self - int retries))") auto

declare fetch_with_retry.simps [simp del]

text \<open>The backoff sleeps and the requests of a trace, in order.\<close>

fun sleeps :: "event list \<Rightarrow> nat list" where
  "sleeps [] = []"
| "sleeps (Sleep n # es) = n # sleeps es"
| "sleeps (e # es) = sleeps es"

fun requests :: "event list \<Rightarrow> url list" where
  "requests [] = []"
| "requests (Request u # es) = u # requests es"
| "requests (e # es) = requests es"

text \<open>The number of permits that the events of a trace leave taken.\<close>

fun permit_step :: "nat \<Rightarrow> event \<Rightarrow> nat" where
  "permit_step h Acquire = h + 1"
| "permit_step h Release = h - 1"
| "permit_step h e = h"

definition held_from :: "nat \<Rightarrow> event list \<Rightarrow> nat" where
  "held_from h tr = foldl permit_step h tr"

definition permits_held :: "event list \<Rightarrow> nat" where
  "permits_held tr = held_from 0 tr"

text \<open>
  The discipline of a trace that starts with \<open>h\<close> permits taken: a permit is taken only
  when none is, a request is made with the permit and everything else without it, and no
  permit is left taken at the end.
\<close>

fun permit_discipline :: "nat \<Rightarrow> event list \<Rightarrow> bool" where
  "permit_discipline h [] = (h = 0)"
| "permit_discipline h (Acquire # es) = (h = 0 \<and> permit_discipline 1 es)"
| "permit_discipline h (Release # es) = (h = 1 \<and> permit_discipline 0 es)"
| "permit_discipline h (Request u # es) = (h = 1 \<and> permit_discipline h es)"
| "permit_discipline h (e # es) = (h = 0 \<and> permit_discipline h es)"

section \<open>Concurrent fetches and the semaphore\<close>

text \<open>
  Several logical fetches run as tasks of one event loop.  A task is the pair of the events
  it has performed and the events it still has to perform; the event loop picks the task
  that performs its next event.  A task whose next event is \<^verbatim>\<open>Acquire\<close> can only be picked
  while fewer than \<open>K\<close> permits are taken (\<^verbatim>\<open>asyncio.Semaphore(K)\<close>).  A schedule is the
  list of the tasks picked, by position.
\<close>

type_synonym task = "event list \<times> event list"

definition permits_in_use :: "task list \<Rightarrow> nat" where
  "permits_in_use ts = sum_list (map (\<lambda>t. permits_held (fst t)) ts)"

definition step :: "nat \<Rightarrow> task list \<Rightarrow> nat \<Rightarrow> task list option" where
  "step K ts i =
     (if i < length ts then
        (case ts ! i of
           (performed, []) \<Rightarrow> None
         | (performed, e # todo) \<Rightarrow>
             if e = Acquire \<and> \<not> permits_in_use ts < K then None
             else Some (ts[i := (performed @ [e], todo)]))
      else None)"

fun exec :: "nat \<Rightarrow> task list \<Rightarrow> nat list \<Rightarrow> task list option" where
  "exec K ts [] = Some ts"
| "exec K ts (i # sched) = (case step K ts i of None \<Rightarrow> None | Some ts' \<Rightarrow> exec K ts' sched)"

definition start :: "(url \<Rightarrow> nat \<Rightarrow> response) \<Rightarrow> scraper \<Rightarrow> url list \<Rightarrow> task list" where
  "start client_get self us = map (\<lambda>u. ([], snd (fetch_with_retry client_get self u 0))) us"

text \<open>
  A logical fetch is in flight from its first event to its last; it is inside an HTTP
  request while it holds a permit.
\<close>

definition in_flight :: "task \<Rightarrow> bool" where
  "in_flight t = (fst t \<noteq> [] \<and> snd t \<noteq> [])"

definition in_request :: "task \<Rightarrow> bool" where
  "in_request t = (0 < permits_held (fst t))"

section \<open>The crawl: \<^verbatim>\<open>scrape_book\<close>, \<^verbatim>\<open>get_all_book_urls\<close>, \<^verbatim>\<open>crawl_all_books\<close>\<close>

text \<open>
  What the crawl takes from outside is collected in one record: the network, the
  functions of \<^verbatim>\<open>BookParser\<close> (which read HTML), \<^verbatim>\<open>urljoin\<close>, the two library functions
  of the fingerprint, the validation of \<^verbatim>\<open>Book(**book_data)\<close>, and the database: whether
  \<^verbatim>\<open>db.connect()\<close> succeeds, the addresses of the stored books, the outcome of
  \<^verbatim>\<open>store_html_snapshot\<close> and of \<^verbatim>\<open>upsert_book\<close> (both catch their exceptions), and
  whether the \<open>n\<close>-th call of \<^verbatim>\<open>save_crawl_progress\<close> reaches the database.
\<close>

record env =
  client_get :: "url \<Rightarrow> nat \<Rightarrow> response"
  urljoin :: "url \<Rightarrow> string \<Rightarrow> url"
  extract_book_links :: "html \<Rightarrow> url \<Rightarrow> url list"
  extract_next_page_url :: "html \<Rightarrow> url \<Rightarrow> url option"
  parse_book_details :: "html \<Rightarrow> url \<Rightarrow> pydict option"
  json_dumps :: "pydict \<Rightarrow> string"
  sha256 :: "string \<Rightarrow> 256 word"
  Book_valid :: "pydict \<Rightarrow> bool"
  store_html_snapshot :: "url \<Rightarrow> html \<Rightarrow> string option"
  upsert_book :: "Book \<Rightarrow> bool"
  db_connect :: bool
  stored_urls :: "url list"
  progress_write :: "nat \<Rightarrow> bool"

definition add_failed :: "scraper \<Rightarrow> url \<Rightarrow> scraper" where
  "add_failed self u =
     self\<lparr>failed_urls := (if u \<in> set (failed_urls self) then failed_urls self
                           else failed_urls self @ [u])\<rparr>"

text \<open>
  \<^verbatim>\<open>scrape_book\<close> catches every exception and records the address as failed;
  \<^verbatim>\<open>if not html\<close> holds for \<^verbatim>\<open>None\<close> and for the empty string.
\<close>

definition scrape_book :: "env \<Rightarrow> scraper \<Rightarrow> url \<Rightarrow> scraper \<times> Book option" where
  "scrape_book env self book_url =
     (case fst (fetch_with_retry (client_get env) self book_url 0) of
        Inl e \<Rightarrow> (add_failed self book_url, None)
      | Inr None \<Rightarrow> (add_failed self book_url, None)
      | Inr (Some h) \<Rightarrow>
          if h = [] then (add_failed self book_url, None)
          else
            (case parse_book_details env h book_url of
               None \<Rightarrow> (add_failed self book_url, None)
             | Some bd \<Rightarrow>
                 let bd1 = AList.update ''content_hash''
                             (PyStr (generate_content_hash (json_dumps env) (sha256 env) bd)) bd;
                     metadata = \<lparr>meta_status = SUCCESS, source_url = book_url\<rparr>;
                     snapshot_id = store_html_snapshot env book_url h
                 in if \<not> Book_valid env bd1 then (add_failed self book_url, None)
                    else
                      let book = \<lparr>book_data = bd1, crawl_metadata = metadata,
                                  html_snapshot_id = snapshot_id\<rparr>;
                          success = upsert_book env book
                      in if success
                         then (self\<lparr>completed_books := completed_books self + 1\<rparr>, Some book)
                         else (add_failed self book_url, None)))"

text \<open>
  The loop of \<^verbatim>\<open>get_all_book_urls\<close>.  It follows the next-page links for as long as there
  is one, so it need not end: the value \<open>None\<close> is the run that does not return.
\<close>

partial_function (option) discover ::
  "env \<Rightarrow> scraper \<Rightarrow> url option \<Rightarrow> url list \<Rightarrow> (error + url list) option"
where
  "discover env self current_url all_book_urls =
     (case current_url of
        None \<Rightarrow> Some (Inr all_book_urls)
      | Some cu \<Rightarrow>
          if cu = [] then Some (Inr all_book_urls)
          else
            (case fst (fetch_with_retry (client_get env) self cu 0) of
               Inl e \<Rightarrow> Some (Inl e)
             | Inr None \<Rightarrow> Some (Inr all_book_urls)
             | Inr (Some h) \<Rightarrow>
                 if h = [] then Some (Inr all_book_urls)
                 else discover env self (extract_next_page_url env h cu)
                        (all_book_urls @ extract_book_links env h cu)))"

definition get_all_book_urls :: "env \<Rightarrow> scraper \<Rightarrow> (error + url list) option" where
  "get_all_book_urls env self =
     discover env self (Some (urljoin env (base_url self) ''catalogue/page-1.html'')) []"

text \<open>
  The collection \<^verbatim>\<open>crawl_progress\<close> holds one document, which
  \<^verbatim>\<open>save_crawl_progress\<close> overwrites; the call catches its exceptions.  \<open>history\<close> lists
  the values the document has taken, oldest first, and \<open>write_calls\<close> counts the calls.
\<close>

record progress_store =
  crawl_progress :: "CrawlProgress option"
  history :: "CrawlProgress list"
  write_calls :: nat

definition save_crawl_progress ::
  "env \<Rightarrow> progress_store \<Rightarrow> CrawlProgress \<Rightarrow> progress_store \<times> bool" where
  "save_crawl_progress env st p =
     (if progress_write env (write_calls st)
      then (st\<lparr>crawl_progress := Some p, history := history st @ [p],
               write_calls := write_calls st + 1\<rparr>, True)
      else (st\<lparr>write_calls := write_calls st + 1\<rparr>, False))"

text \<open>
  \<^verbatim>\<open>asyncio.gather(*batch)\<close> runs the tasks of one batch to their end.  Each task changes
  the counters in one piece between two suspension points, and the outcome of a task is
  given by the outside world, so the tasks are run here one after the other.
\<close>

definition gather :: "env \<Rightarrow> scraper \<Rightarrow> url list \<Rightarrow> scraper" where
  "gather env self batch = foldl (\<lambda>s u. fst (scrape_book env s u)) self batch"

definition batch_size :: nat where
  "batch_size = 50"

function batch_loop ::
  "env \<Rightarrow> url list \<Rightarrow> nat \<Rightarrow> scraper \<times> progress_store \<Rightarrow> scraper \<times> progress_store"
where
  "batch_loop env tasks i (self, st) =
     (if i < length tasks then
        let batch = take batch_size (drop i tasks);
            self' = gather env self batch;
            p = \<lparr>total_pages = total_books self', completed_pages = completed_books self',
                 failed_pages = failed_urls self',
                 status = (if failed_urls self' \<noteq> [] then PARTIAL else SUCCESS)\<rparr>;
            st' = fst (save_crawl_progress env st p)
        in batch_loop env tasks (i + batch_size) (self', st')
      else (self, st))"
  by pat_completeness auto
termination
  by (relation "measure (\<lambda>(env, tasks, i, x). length tasks - i)") (auto simp: batch_size_def)

declare batch_loop.simps [simp del]

record crawl_result =
  progress :: CrawlProgress
  scheduled :: "url list"
  final_scraper :: scraper
  final_store :: progress_store

definition crawl_all_books ::
  "env \<Rightarrow> scraper \<Rightarrow> progress_store \<Rightarrow> bool \<Rightarrow> (error + crawl_result) option" where
  "crawl_all_books env self st resume =
     (if \<not> db_connect env then Some (Inl DbConnectError)
      else
        (case get_all_book_urls env self of
           None \<Rightarrow> None
         | Some (Inl e) \<Rightarrow> Some (Inl e)
         | Some (Inr book_urls) \<Rightarrow>
             let self1 = self\<lparr>total_books := int (length book_urls)\<rparr>;
                 tasks = (if resume
                          then filter (\<lambda>u. u \<notin> set (stored_urls env)) book_urls
                          else book_urls);
                 (self2, st2) = batch_loop env tasks 0 (self1, st);
                 final_status = (if \<not> failed_urls self2 \<noteq> [] then SUCCESS else PARTIAL);
                 p = \<lparr>total_pages = total_books self2, completed_pages = completed_books self2,
                      failed_pages = failed_urls self2, status = final_status\<rparr>;
                 st3 = fst (save_crawl_progress env st2 p)
             in Some (Inr \<lparr>progress = p, scheduled = tasks, final_scraper = self2,
                            final_store = st3\<rparr>)))"

text \<open>
  \<^verbatim>\<open>run_crawler\<close> makes a new \<^verbatim>\<open>BookScraper\<close> for every run.  The progress document that
  the run finds is \<open>doc\<close>.
\<close>

definition run_crawler ::
  "env \<Rightarrow> settings \<Rightarrow> CrawlProgress option \<Rightarrow> bool \<Rightarrow> (error + crawl_result) option" where
  "run_crawler env cfg doc resume =
     crawl_all_books env (BookScraper_init cfg)
       \<lparr>crawl_progress = doc, history = [], write_calls = 0\<rparr> resume"

section \<open>Auxiliary definitions\<close>

text \<open>
  The progress record that \<^verbatim>\<open>crawl_all_books\<close> builds from the counters of the scraper,
  after a batch and at the end.
\<close>

definition progress_of :: "scraper \<Rightarrow> CrawlProgress" where
  "progress_of self =
     \<lparr>total_pages = total_books self, completed_pages = completed_books self,
      failed_pages = failed_urls self,
      status = (if failed_urls self \<noteq> [] then PARTIAL else SUCCESS)\<rparr>"

section \<open>Concrete inputs\<close>

text \<open>A network on which every request fails with an error that is retried.\<close>

definition net_down :: "url \<Rightarrow> nat \<Rightarrow> response" where
  "net_down u n = HTTPError"

definition scraper0 :: scraper where
  "scraper0 = BookScraper_init default_settings"

text \<open>
  The stored record and the new record of \<^verbatim>\<open>test_detect_price_change\<close> in
  \<^verbatim>\<open>tests/test_scheduler.py\<close>, and a new record in which only the price without tax has
  changed.
\<close>

definition old_book_demo :: pydict where
  "old_book_demo =
     [(''_id'', PyStr ''123''), (''name'', PyStr ''Test Book''),
      (''price_incl_tax'', PyFloat (1099 / 100)), (''price_excl_tax'', PyFloat (999 / 100)),
      (''availability'', PyStr ''In stock''), (''description'', PyStr ''Test'')]"

definition new_book_both :: pydict where
  "new_book_both =
     [(''name'', PyStr ''Test Book''),
      (''price_incl_tax'', PyFloat (1299 / 100)), (''price_excl_tax'', PyFloat (1199 / 100)),
      (''availability'', PyStr ''In stock''), (''description'', PyStr ''Test'')]"

definition new_book_excl :: pydict where
  "new_book_excl =
     [(''name'', PyStr ''Test Book''),
      (''price_incl_tax'', PyFloat (1099 / 100)), (''price_excl_tax'', PyFloat (949 / 100)),
      (''availability'', PyStr ''In stock''), (''description'', PyStr ''Test'')]"

text \<open>
  The dictionaries of \<^verbatim>\<open>tests/test_crawler.py\<close>, the first one also with its keys in
  another order, and stand-ins for the two library functions of the fingerprint.
\<close>

definition book_a :: pydict where
  "book_a =
     [(''name'', PyStr ''Test Book''),
      (''price_incl_tax'', PyFloat (1099 / 100)), (''price_excl_tax'', PyFloat (999 / 100)),
      (''availability'', PyStr ''In stock''), (''description'', PyStr ''Test description'')]"



definition dumps_demo :: "pydict \<Rightarrow> string" where
  "dumps_demo d = concat (map (\<lambda>(k, v). k @ (case v of PyStr s \<Rightarrow> s | _ \<Rightarrow> '''')) d)"

definition digest_demo :: "string \<Rightarrow> 256 word" where
  "digest_demo s = of_nat (length s)"

text \<open>A scraper that retries once.\<close>

definition scraper1 :: scraper where
  "scraper1 = scraper0\<lparr>max_retries := 1\<rparr>"

text \<open>
  Three worlds for the crawl.  In \<open>env_down\<close> no request succeeds.  In \<open>env_demo\<close> the
  catalogue has one page with three books: the first is scraped, the page of the second
  does not parse, the third cannot be fetched; the first is in the store already.  In
  \<open>env_allfail\<close> the same catalogue is found and no book can be fetched.
\<close>

definition page1 :: url where
  "page1 = ''https://books.toscrape.com/catalogue/page-1.html''"

definition env_down :: env where
  "env_down =
     \<lparr>client_get = net_down,
      urljoin = (\<lambda>b r. b @ ''/'' @ r),
      extract_book_links = (\<lambda>h cu. []),
      extract_next_page_url = (\<lambda>h cu. None),
      parse_book_details = (\<lambda>h u. None),
      json_dumps = dumps_demo,
      sha256 = digest_demo,
      Book_valid = (\<lambda>d. True),
      store_html_snapshot = (\<lambda>u h. None),
      upsert_book = (\<lambda>b. True),
      db_connect = True,
      stored_urls = [],
      progress_write = (\<lambda>n. True)\<rparr>"

definition demo_net :: "url \<Rightarrow> nat \<Rightarrow> response" where
  "demo_net u n =
     (if u = ''https://books.toscrape.com/catalogue/page-1.html'' then Response ''page-1''
      else if u = ''book-a'' then Response ''A''
      else if u = ''book-b'' then Response ''B''
      else HTTPError)"

definition env_demo :: env where
  "env_demo =
     \<lparr>client_get = demo_net,
      urljoin = (\<lambda>b r. b @ ''/'' @ r),
      extract_book_links = (\<lambda>h cu. if h = ''page-1'' then [''book-a'', ''book-b'', ''book-c''] else []),
      extract_next_page_url = (\<lambda>h cu. None),
      parse_book_details = (\<lambda>h u. if h = ''A'' then Some book_a else None),
      json_dumps = dumps_demo,
      sha256 = digest_demo,
      Book_valid = (\<lambda>d. True),
      store_html_snapshot = (\<lambda>u h. None),
      upsert_book = (\<lambda>b. True),
      db_connect = True,
      stored_urls = [''book-a''],
      progress_write = (\<lambda>n. True)\<rparr>"

definition env_allfail :: env where
  "env_allfail =
     env_demo\<lparr>client_get := (\<lambda>u n. if u = page1 then Response ''page-1'' else HTTPError)\<rparr>"

text \<open>
  A catalogue of 52 books, that is two batches: the addresses are \<open>x\<close>, \<open>xx\<close>, ...; a book
  is scraped when the length of its address is even and cannot be fetched otherwise.  The
  second write of the progress document does not reach the database.
\<close>

definition big_urls :: "url list" where
  "big_urls = map (\<lambda>n. replicate n CHR ''x'') [1..<53]"

definition env_big :: env where
  "env_big =
     \<lparr>client_get = (\<lambda>u n. if u = page1 then Response ''page-1''
                            else if even (length u) then Response ''ok'' else HTTPError),
      urljoin = (\<lambda>b r. b @ ''/'' @ r),
      extract_book_links = (\<lambda>h cu. if h = ''page-1'' then big_urls else []),
      extract_next_page_url = (\<lambda>h cu. None),
      parse_book_details = (\<lambda>h u. if h = ''ok'' then Some book_a else None),
      json_dumps = dumps_demo,
      sha256 = digest_demo,
      Book_valid = (\<lambda>d. True),
      store_html_snapshot = (\<lambda>u h. None),
      upsert_book = (\<lambda>b. True),
      db_connect = True,
      stored_urls = [],
      progress_write = (\<lambda>n. n \<noteq> 1)\<rparr>"

text \<open>The catalogue of \<open>env_demo\<close> with the second book in the store instead of the first.\<close>

definition env_demo_b :: env where
  "env_demo_b = env_demo\<lparr>stored_urls := [''book-b'']\<rparr>"





section \<open>Properties of the fetcher\<close>

lemma max_retries_scraper0: "max_retries scraper0 = 3"
  by (simp add: scraper0_def BookScraper_init_def default_settings_def)

lemma fetch_response:
  "g u r = Response t \<Longrightarrow> fetch_with_retry g s u r = (Inr (Some t), [Acquire, Request u, Release])"
  by (simp add: fetch_with_retry.simps)

lemma fetch_other:
  "g u r = OtherException \<Longrightarrow>
     fetch_with_retry g s u r = (Inl UncaughtException, [Acquire, Request u, Release])"
  by (simp add: fetch_with_retry.simps)

lemma fetch_exhausted:
  "g u r = HTTPError \<Longrightarrow> \<not> int r < max_retries s \<Longrightarrow>
     fetch_with_retry g s u r = (Inr None, [Acquire, Request u, Release, LogError u])"
  by (simp add: fetch_with_retry.simps)

lemma fetch_retry:
  "g u r = HTTPError \<Longrightarrow> int r < max_retries s \<Longrightarrow>
     fetch_with_retry g s u r =
       (fst (fetch_with_retry g s u (Suc r)),
        [Acquire, Request u, Release, LogWarning u (2 ^ r), Sleep (2 ^ r)]
          @ snd (fetch_with_retry g s u (Suc r)))"
  by (subst fetch_with_retry.simps) (simp add: Let_def split: prod.splits)

lemma fetch_cases:
  obtains (ok) t where "g u r = Response t"
       "fetch_with_retry g s u r = (Inr (Some t), [Acquire, Request u, Release])"
  | (raised) "g u r = OtherException"
       "fetch_with_retry g s u r = (Inl UncaughtException, [Acquire, Request u, Release])"
  | (exhausted) "g u r = HTTPError" "\<not> int r < max_retries s"
       "fetch_with_retry g s u r = (Inr None, [Acquire, Request u, Release, LogError u])"
  | (retry) "g u r = HTTPError" "int r < max_retries s"
       "fetch_with_retry g s u r =
          (fst (fetch_with_retry g s u (Suc r)),
           [Acquire, Request u, Release, LogWarning u (2 ^ r), Sleep (2 ^ r)]
             @ snd (fetch_with_retry g s u (Suc r)))"
proof (cases "g u r")
  case (Response t)
  then show ?thesis using ok fetch_response by blast
next
  case OtherException
  then show ?thesis using raised fetch_other by blast
next
  case err: HTTPError
  show ?thesis
  proof (cases "int r < max_retries s")
    case True
    then show ?thesis using retry err fetch_retry[of g u r s] by blast
  next
    case False
    then show ?thesis using exhausted err fetch_exhausted[of g u r s] by blast
  qed
qed

text \<open>
  From retry count \<open>r\<close> on, the sleeps of a fetch are \<open>2 ^ r\<close>, \<open>2 ^ (r + 1)\<close>, ..., one
  per retry, and the retry count never passes \<^verbatim>\<open>max_retries\<close>.
\<close>

lemma fetch_schedule:
  "\<exists>k. sleeps (snd (fetch_with_retry g s u r)) = map (\<lambda>i. 2 ^ i) [r..<r + k]
     \<and> (k = 0 \<or> int (r + k) \<le> max_retries s)
     \<and> requests (snd (fetch_with_retry g s u r)) = replicate (Suc k) u"
proof (induction g s u r rule: fetch_with_retry.induct)
  case (1 g s u r)
  show ?case
  proof (cases rule: fetch_cases[of g u r s])
    case (ok t)
    then show ?thesis by (intro exI[of _ 0]) simp
  next
    case raised
    then show ?thesis by (intro exI[of _ 0]) simp
  next
    case exhausted
    then show ?thesis by (intro exI[of _ 0]) simp
  next
    case retry
    from "1.IH"[OF retry(1,2) refl] obtain k where
      k: "sleeps (snd (fetch_with_retry g s u (Suc r))) = map (\<lambda>i. 2 ^ i) [Suc r..<Suc r + k]"
         "k = 0 \<or> int (Suc r + k) \<le> max_retries s"
         "requests (snd (fetch_with_retry g s u (Suc r))) = replicate (Suc k) u"
      by auto
    have "[r..<r + Suc k] = r # [Suc r..<Suc r + k]"
      by (simp add: upt_conv_Cons)
    with k retry show ?thesis
      by (intro exI[of _ "Suc k"]) auto
  qed
qed

lemma fetch_all_fail:
  "(\<And>i. r \<le> i \<Longrightarrow> i \<le> nat (max_retries s) \<Longrightarrow> g u i = HTTPError) \<Longrightarrow>
   r \<le> nat (max_retries s) \<Longrightarrow>
     fst (fetch_with_retry g s u r) = Inr None
     \<and> sleeps (snd (fetch_with_retry g s u r)) = map (\<lambda>i. 2 ^ i) [r..<nat (max_retries s)]
     \<and> last (snd (fetch_with_retry g s u r)) = LogError u"
proof (induction g s u r rule: fetch_with_retry.induct)
  case (1 g s u r)
  have err: "g u r = HTTPError" using "1.prems" by simp
  show ?case
  proof (cases "int r < max_retries s")
    case False
    with "1.prems"(2) have "r = nat (max_retries s)" by linarith
    with False err show ?thesis by (simp add: fetch_exhausted)
  next
    case True
    then have le: "Suc r \<le> nat (max_retries s)" by linarith
    have IH: "fst (fetch_with_retry g s u (Suc r)) = Inr None
        \<and> sleeps (snd (fetch_with_retry g s u (Suc r)))
            = map (\<lambda>i. 2 ^ i) [Suc r..<nat (max_retries s)]
        \<and> last (snd (fetch_with_retry g s u (Suc r))) = LogError u"
      using "1.IH"[OF err True refl] "1.prems"(1) le by simp
    have ne: "snd (fetch_with_retry g s u (Suc r)) \<noteq> []"
      by (cases rule: fetch_cases[of g u "Suc r" s]) auto
    have "[r..<nat (max_retries s)] = r # [Suc r..<nat (max_retries s)]"
      using le by (simp add: upt_conv_Cons)
    with IH ne show ?thesis
      by (simp add: fetch_retry[of g u r s, OF err True])
  qed
qed

lemma fetch_net_down:
  "fst (fetch_with_retry net_down s u 0) = Inr None"
  using fetch_all_fail[of 0 s net_down u] by (simp add: net_down_def)

text \<open>
  Claim C8, as the code has it.  The \<open>i\<close>-th backoff sleep of a logical fetch (counting from 0)
  lasts \<open>2 ^ i\<close> seconds; there are at most \<^verbatim>\<open>max_retries\<close> sleeps and one request more
  than sleeps, all for the same address.  When every attempt fails with a retried error,
  there are exactly \<^verbatim>\<open>max_retries\<close> sleeps, the function returns \<^verbatim>\<open>None\<close>, and the last
  thing it does is to log an error that names the address.  For \<^verbatim>\<open>max_retries = 3\<close> the
  sleeps are 1, 2 and 4 seconds.
\<close>

theorem backoff_schedule:
  "sleeps (snd (fetch_with_retry g self u 0))
     = map (\<lambda>i. 2 ^ i) [0..<length (sleeps (snd (fetch_with_retry g self u 0)))]
   \<and> int (length (sleeps (snd (fetch_with_retry g self u 0)))) \<le> max 0 (max_retries self)
   \<and> requests (snd (fetch_with_retry g self u 0))
       = replicate (length (sleeps (snd (fetch_with_retry g self u 0))) + 1) u
   \<and> ((\<forall>i \<le> nat (max_retries self). g u i = HTTPError) \<longrightarrow>
        fst (fetch_with_retry g self u 0) = Inr None
        \<and> sleeps (snd (fetch_with_retry g self u 0)) = map (\<lambda>i. 2 ^ i) [0..<nat (max_retries self)]
        \<and> last (snd (fetch_with_retry g self u 0)) = LogError u)
   \<and> (max_retries self = 3 \<and> (\<forall>i \<le> 3. g u i = HTTPError) \<longrightarrow>
        fst (fetch_with_retry g self u 0) = Inr None
        \<and> sleeps (snd (fetch_with_retry g self u 0)) = [1, 2, 4])"
proof -
  obtain k where k:
    "sleeps (snd (fetch_with_retry g self u 0)) = map (\<lambda>i. 2 ^ i) [0..<k]"
    "k = 0 \<or> int k \<le> max_retries self"
    "requests (snd (fetch_with_retry g self u 0)) = replicate (Suc k) u"
    using fetch_schedule[of g self u 0] by auto
  have len: "length (sleeps (snd (fetch_with_retry g self u 0))) = k"
    using k(1) by simp
  have all: "(\<forall>i \<le> nat (max_retries self). g u i = HTTPError) \<longrightarrow>
        fst (fetch_with_retry g self u 0) = Inr None
        \<and> sleeps (snd (fetch_with_retry g self u 0)) = map (\<lambda>i. 2 ^ i) [0..<nat (max_retries self)]
        \<and> last (snd (fetch_with_retry g self u 0)) = LogError u"
    using fetch_all_fail[of 0 self g u] by simp
  have three: "max_retries self = 3 \<and> (\<forall>i \<le> 3. g u i = HTTPError) \<longrightarrow>
        fst (fetch_with_retry g self u 0) = Inr None
        \<and> sleeps (snd (fetch_with_retry g self u 0)) = [1, 2, 4]"
  proof (intro impI, elim conjE)
    assume m: "max_retries self = 3" and f: "\<forall>i \<le> 3. g u i = HTTPError"
    have "[0..<3] = [0, 1, 2::nat]" by (simp add: upt_conv_Cons)
    with all m f show "fst (fetch_with_retry g self u 0) = Inr None
        \<and> sleeps (snd (fetch_with_retry g self u 0)) = [1, 2, 4]"
      by simp
  qed
  from k len all three show ?thesis by (simp only: ) auto
qed

theorem backoff_schedule_witness:
  "fst (fetch_with_retry net_down scraper0 ''https://books.toscrape.com/x'' 0) = Inr None
   \<and> sleeps (snd (fetch_with_retry net_down scraper0 ''https://books.toscrape.com/x'' 0)) = [1, 2, 4]
   \<and> requests (snd (fetch_with_retry net_down scraper0 ''https://books.toscrape.com/x'' 0))
        = [''https://books.toscrape.com/x'', ''https://books.toscrape.com/x'',
           ''https://books.toscrape.com/x'', ''https://books.toscrape.com/x'']
   \<and> last (snd (fetch_with_retry net_down scraper0 ''https://books.toscrape.com/x'' 0))
        = LogError ''https://books.toscrape.com/x''"
  using backoff_schedule[of net_down scraper0 "''https://books.toscrape.com/x''"]
  by (simp add: max_retries_scraper0 net_down_def numeral_3_eq_3)

text \<open>
  The value returned after the last failed attempt is \<^verbatim>\<open>None\<close> whatever the address: it is
  the same for two different addresses, so it does not identify the address.
\<close>

theorem backoff_failure_value_counterexample:
  "fst (fetch_with_retry net_down scraper0 ''https://books.toscrape.com/a'' 0) = Inr None
   \<and> fst (fetch_with_retry net_down scraper0 ''https://books.toscrape.com/b'' 0) = Inr None
   \<and> ''https://books.toscrape.com/a'' \<noteq> ''https://books.toscrape.com/b''"
  by (simp add: fetch_net_down)

section \<open>Properties of the permit\<close>

lemma held_from_Nil [simp]: "held_from h [] = h"
  by (simp add: held_from_def)

lemma held_from_Cons [simp]: "held_from h (e # es) = held_from (permit_step h e) es"
  by (simp add: held_from_def)

lemma discipline_prefix:
  "permit_discipline h (pre @ e # post) \<Longrightarrow>
     held_from h pre = (case e of Request v \<Rightarrow> 1 | Release \<Rightarrow> 1 | _ \<Rightarrow> 0)"
proof (induction pre arbitrary: h)
  case Nil
  then show ?case by (cases e) auto
next
  case (Cons a pre)
  then show ?case by (cases a) auto
qed

lemma discipline_end: "permit_discipline h tr \<Longrightarrow> held_from h tr = 0"
proof (induction tr arbitrary: h)
  case Nil
  then show ?case by simp
next
  case (Cons a tr)
  then show ?case by (cases a) auto
qed

lemma fetch_discipline: "permit_discipline 0 (snd (fetch_with_retry g s u r))"
proof (induction g s u r rule: fetch_with_retry.induct)
  case (1 g s u r)
  show ?case
  proof (cases rule: fetch_cases[of g u r s])
    case (ok t)
    then show ?thesis by simp
  next
    case raised
    then show ?thesis by simp
  next
    case exhausted
    then show ?thesis by simp
  next
    case retry
    from "1.IH"[OF retry(1,2) refl] retry(3) show ?thesis by simp
  qed
qed

lemma permits_held_snoc: "permits_held (tr @ [e]) = permit_step (permits_held tr) e"
  by (simp add: permits_held_def held_from_def)

lemma permits_in_use_update:
  assumes "i < length ts"
  shows "permits_in_use (ts[i := t]) + permits_held (fst (ts ! i))
           = permits_in_use ts + permits_held (fst t)"
  using assms
proof (induction ts arbitrary: i)
  case Nil
  then show ?case by simp
next
  case (Cons a ts)
  show ?case
  proof (cases i)
    case 0
    then show ?thesis by (simp add: permits_in_use_def)
  next
    case (Suc j)
    with Cons.prems have "j < length ts" by simp
    from Cons.IH[OF this] Suc show ?thesis by (simp add: permits_in_use_def)
  qed
qed

lemma step_permits:
  assumes "step K ts i = Some ts'" and "permits_in_use ts \<le> K"
  shows "permits_in_use ts' \<le> K"
proof -
  from assms(1) obtain performed e todo where
    i: "i < length ts" and t: "ts ! i = (performed, e # todo)"
    and en: "e = Acquire \<longrightarrow> permits_in_use ts < K"
    and ts': "ts' = ts[i := (performed @ [e], todo)]"
    by (auto simp: step_def split: if_splits prod.splits list.splits)
  have "permits_in_use ts' + permits_held performed
          = permits_in_use ts + permits_held (performed @ [e])"
    using permits_in_use_update[OF i, of "(performed @ [e], todo)"] t ts' by simp
  then show ?thesis
    using en assms(2) by (cases e) (auto simp: permits_held_snoc)
qed

lemma exec_permits:
  "exec K ts sched = Some ts' \<Longrightarrow> permits_in_use ts \<le> K \<Longrightarrow> permits_in_use ts' \<le> K"
proof (induction sched arbitrary: ts)
  case Nil
  then show ?case by simp
next
  case (Cons i sched)
  then show ?case by (auto split: option.splits dest: step_permits)
qed

lemma start_permits: "permits_in_use (start g s us) = 0"
  by (induction us) (simp_all add: start_def permits_in_use_def permits_held_def)

lemma in_request_le: "length (filter in_request ts) \<le> permits_in_use ts"
  by (induction ts) (auto simp: permits_in_use_def in_request_def)

text \<open>
  Claim C3, as the code has it.  In every execution of \<^verbatim>\<open>fetch_with_retry\<close> the permit is
  held at each request and at no backoff sleep, and it is given back at the end: it is held
  for one HTTP attempt at a time.  So with \<open>K\<close> permits, whatever the event loop schedules,
  at most \<open>K\<close> of the concurrent fetches are inside a request at any moment.
\<close>

theorem permit_scope:
  "(\<forall>pre n post. snd (fetch_with_retry g self u 0) = pre @ Sleep n # post \<longrightarrow> permits_held pre = 0)
   \<and> (\<forall>pre v post. snd (fetch_with_retry g self u 0) = pre @ Request v # post \<longrightarrow> permits_held pre = 1)
   \<and> permits_held (snd (fetch_with_retry g self u 0)) = 0
   \<and> (\<forall>sched ts. exec K (start g self us) sched = Some ts \<longrightarrow> length (filter in_request ts) \<le> K)"
proof -
  have d: "permit_discipline 0 (snd (fetch_with_retry g self u 0))"
    by (rule fetch_discipline)
  have a: "\<forall>pre n post. snd (fetch_with_retry g self u 0) = pre @ Sleep n # post \<longrightarrow> permits_held pre = 0"
  proof (intro allI impI)
    fix pre n post assume "snd (fetch_with_retry g self u 0) = pre @ Sleep n # post"
    with d have "permit_discipline 0 (pre @ Sleep n # post)" by simp
    from discipline_prefix[OF this] show "permits_held pre = 0"
      by (simp add: permits_held_def)
  qed
  have b: "\<forall>pre v post. snd (fetch_with_retry g self u 0) = pre @ Request v # post \<longrightarrow> permits_held pre = 1"
  proof (intro allI impI)
    fix pre v post assume "snd (fetch_with_retry g self u 0) = pre @ Request v # post"
    with d have "permit_discipline 0 (pre @ Request v # post)" by simp
    from discipline_prefix[OF this] show "permits_held pre = 1"
      by (simp add: permits_held_def)
  qed
  have c: "permits_held (snd (fetch_with_retry g self u 0)) = 0"
    using discipline_end[OF d] by (simp add: permits_held_def)
  have e: "\<forall>sched ts. exec K (start g self us) sched = Some ts \<longrightarrow> length (filter in_request ts) \<le> K"
  proof (intro allI impI)
    fix sched ts assume "exec K (start g self us) sched = Some ts"
    then have "permits_in_use ts \<le> K"
      by (rule exec_permits) (simp add: start_permits)
    with in_request_le[of ts] show "length (filter in_request ts) \<le> K" by simp
  qed
  from a b c e show ?thesis by blast
qed

lemma max_retries_scraper1: "max_retries scraper1 = 1"
  by (simp add: scraper1_def)

lemma trace_down1:
  "snd (fetch_with_retry net_down scraper1 u 0)
     = [Acquire, Request u, Release, LogWarning u 1, Sleep 1,
        Acquire, Request u, Release, LogError u]"
  by (simp add: fetch_retry[of net_down u 0 scraper1] fetch_exhausted[of net_down u "Suc 0" scraper1]
      net_down_def max_retries_scraper1)

text \<open>
  A fetch that is retried once: when its backoff sleep starts it holds no permit.  And with
  one permit, two logical fetches are in flight at once: the first has made its first
  attempt and waits to retry, the second has taken the permit.
\<close>

theorem permit_released_counterexample:
  "snd (fetch_with_retry net_down scraper1 ''u'' 0)
     = [Acquire, Request ''u'', Release, LogWarning ''u'' 1] @ Sleep 1 #
       [Acquire, Request ''u'', Release, LogError ''u'']
   \<and> permits_held [Acquire, Request ''u'', Release, LogWarning ''u'' 1] = 0
   \<and> map_option (\<lambda>ts. length (filter in_flight ts))
        (exec 1 (start net_down scraper1 [''u'', ''v'']) [0, 0, 0, 0, 1]) = Some 2"
  by (simp add: trace_down1 permits_held_def start_def step_def permits_in_use_def in_flight_def)

lemma performed_five:
  "exec 1 (start net_down scraper1 [''u'', ''v'']) [0, 0, 0, 0, 1]
     = Some [([Acquire, Request ''u'', Release, LogWarning ''u'' 1],
              [Sleep 1, Acquire, Request ''u'', Release, LogError ''u'']),
             ([Acquire],
              [Request ''v'', Release, LogWarning ''v'' 1, Sleep 1,
               Acquire, Request ''v'', Release, LogError ''v''])]"
  by (simp add: trace_down1 permits_held_def start_def step_def permits_in_use_def)

theorem permit_scope_witness:
  "permits_held [Acquire, Request ''u'', Release, LogWarning ''u'' 1] = 0
   \<and> permits_held [Acquire] = 1
   \<and> length (filter in_request
        [([Acquire, Request ''u'', Release, LogWarning ''u'' 1],
          [Sleep 1, Acquire, Request ''u'', Release, LogError ''u'']),
         ([Acquire],
          [Request ''v'', Release, LogWarning ''v'' 1, Sleep 1,
           Acquire, Request ''v'', Release, LogError ''v''])]) \<le> 1"
proof -
  note scope = permit_scope[of net_down scraper1 "''u''" 1 "[''u'', ''v'']"]
  have sl: "snd (fetch_with_retry net_down scraper1 ''u'' 0)
      = [Acquire, Request ''u'', Release, LogWarning ''u'' 1] @ Sleep 1 #
        [Acquire, Request ''u'', Release, LogError ''u'']"
    by (simp add: trace_down1)
  have rq: "snd (fetch_with_retry net_down scraper1 ''u'' 0)
      = [Acquire] @ Request ''u'' #
        [Release, LogWarning ''u'' 1, Sleep 1, Acquire, Request ''u'', Release, LogError ''u'']"
    by (simp add: trace_down1)
  have a: "permits_held [Acquire, Request ''u'', Release, LogWarning ''u'' 1] = 0"
    using scope[THEN conjunct1, rule_format, OF sl] .
  have b: "permits_held [Acquire] = 1"
    using scope[THEN conjunct2, THEN conjunct1, rule_format, OF rq] .
  have c: "length (filter in_request
        [([Acquire, Request ''u'', Release, LogWarning ''u'' 1],
          [Sleep 1, Acquire, Request ''u'', Release, LogError ''u'']),
         ([Acquire],
          [Request ''v'', Release, LogWarning ''v'' 1, Sleep 1,
           Acquire, Request ''v'', Release, LogError ''v''])]) \<le> 1"
    using scope[THEN conjunct2, THEN conjunct2, THEN conjunct2, rule_format, OF performed_five] .
  from a b c show ?thesis by (intro conjI)
qed

section \<open>Properties of the change detector\<close>

lemma py_eq_refl: "py_eq v v"
  by (cases v) simp_all

lemma py_ne_same: "\<not> py_ne v v"
  by (simp add: py_ne_def py_eq_refl)

text \<open>Comparing a record with itself yields no event.\<close>

lemma detect_changes_identical: "detect_changes num_str d d = Inr []"
  by (simp add: detect_changes_def py_ne_same)

text \<open>
  When the prices with tax differ (and the new record has a name that is a string), the
  first event is the one \<^verbatim>\<open>PRICE_CHANGE\<close> event, and it carries both old and both new
  prices.
\<close>

lemma detect_changes_price_incl:
  assumes "py_ne (py_get old_book ''price_incl_tax'') (py_get new_book ''price_incl_tax'')"
    and "py_get_default new_book ''name'' (PyStr ''Unknown'') = PyStr n"
  shows "\<exists>rest. detect_changes num_str old_book new_book =
           Inr (\<lparr>book_id = py_str num_str (py_get_default old_book ''_id'' (PyStr '''')),
                 book_name = n, change_type = PRICE_CHANGE,
                 old_value = Some [(''price_incl_tax'', py_get old_book ''price_incl_tax''),
                                   (''price_excl_tax'', py_get old_book ''price_excl_tax'')],
                 new_value = [(''price_incl_tax'', py_get new_book ''price_incl_tax''),
                              (''price_excl_tax'', py_get new_book ''price_excl_tax'')]\<rparr> # rest)
         \<and> (\<forall>c \<in> set rest. change_type c \<noteq> PRICE_CHANGE)"
  using assms
  by (auto simp: detect_changes_def ChangeLog_init_def append_change_def Let_def)

text \<open>When the prices with tax are equal, no event is a \<^verbatim>\<open>PRICE_CHANGE\<close> event.\<close>

lemma detect_changes_no_price_event:
  assumes "\<not> py_ne (py_get old_book ''price_incl_tax'') (py_get new_book ''price_incl_tax'')"
    and "detect_changes num_str old_book new_book = Inr cs"
  shows "\<forall>c \<in> set cs. change_type c \<noteq> PRICE_CHANGE"
  using assms
  by (auto simp: detect_changes_def ChangeLog_init_def append_change_def Let_def
      split: if_splits pyval.splits sum.splits)

text \<open>The comparison of \<^verbatim>\<open>test_detect_price_change\<close>: both prices have changed.\<close>

lemma detect_changes_price_both:
  "detect_changes num_str old_book_demo new_book_both =
     Inr [\<lparr>book_id = ''123'', book_name = ''Test Book'', change_type = PRICE_CHANGE,
           old_value = Some [(''price_incl_tax'', PyFloat (1099 / 100)),
                             (''price_excl_tax'', PyFloat (999 / 100))],
           new_value = [(''price_incl_tax'', PyFloat (1299 / 100)),
                        (''price_excl_tax'', PyFloat (1199 / 100))]\<rparr>]"
  by (simp add: detect_changes_def old_book_demo_def new_book_both_def py_get_def py_ne_def
      py_get_default_def py_str_def ChangeLog_init_def append_change_def)

text \<open>
  Claim C2 at an input on which the code departs from it.  The stored record and the new
  one differ in the price without tax only (9.99 against 9.49, the price with tax is 10.99
  in both): \<^verbatim>\<open>detect_changes\<close> compares the prices with tax only and returns no event.
\<close>

theorem detect_changes_price_excl_only:
  "detect_changes num_str old_book_demo new_book_excl = Inr []
   \<and> py_ne (py_get old_book_demo ''price_excl_tax'') (py_get new_book_excl ''price_excl_tax'')"
  by (simp add: detect_changes_def old_book_demo_def new_book_excl_def py_get_def py_ne_def)

text \<open>
  Claim C9.  \<^verbatim>\<open>run_change_detection\<close> reports no change and no new book and leaves the
  database as it found it, the change log included, whatever the stored books are.  (It
  takes nothing but the clock and the database: it has no network to fetch from, and
  \<^verbatim>\<open>detect_changes\<close> does not occur in it.)
\<close>

theorem run_change_detection_noop:
  "changes_detected (fst (run_change_detection now db)) = 0
   \<and> new_books (fst (run_change_detection now db)) = 0
   \<and> change_types (fst (run_change_detection now db)) = []
   \<and> change_log (snd (run_change_detection now db)) = change_log db
   \<and> snd (run_change_detection now db) = db"
  by (simp add: run_change_detection_def Let_def)

section \<open>Properties of the fingerprint\<close>


















section \<open>Properties of the crawl\<close>

lemma scrape_book_cases:
  "(scrape_book env s u = (add_failed s u, None))
   \<or> (\<exists>b. scrape_book env s u = (s\<lparr>completed_books := completed_books s + 1\<rparr>, Some b))"
  by (simp add: scrape_book_def Let_def split: sum.splits option.splits)

lemma gather_Nil [simp]: "gather env s [] = s"
  by (simp add: gather_def)

lemma gather_Cons [simp]: "gather env s (u # us) = gather env (fst (scrape_book env s u)) us"
  by (simp add: gather_def)

lemma gather_append: "gather env s (xs @ ys) = gather env (gather env s xs) ys"
  by (simp add: gather_def)

lemma scrape_book_frame:
  "total_books (fst (scrape_book env s u)) = total_books s
   \<and> max_retries (fst (scrape_book env s u)) = max_retries s
   \<and> base_url (fst (scrape_book env s u)) = base_url s"
  using scrape_book_cases[of env s u] by (auto simp: add_failed_def)

lemma gather_frame:
  "total_books (gather env s us) = total_books s
   \<and> max_retries (gather env s us) = max_retries s
   \<and> base_url (gather env s us) = base_url s"
  by (induction us arbitrary: s) (simp_all add: scrape_book_frame)

lemma scrape_book_counts:
  "completed_books s \<le> completed_books (fst (scrape_book env s u))
   \<and> completed_books (fst (scrape_book env s u)) + int (length (failed_urls (fst (scrape_book env s u))))
       \<le> completed_books s + int (length (failed_urls s)) + 1
   \<and> set (failed_urls s) \<subseteq> set (failed_urls (fst (scrape_book env s u)))
   \<and> set (failed_urls (fst (scrape_book env s u))) \<subseteq> insert u (set (failed_urls s))
   \<and> (distinct (failed_urls s) \<longrightarrow> distinct (failed_urls (fst (scrape_book env s u))))
   \<and> (u \<notin> set (failed_urls s) \<longrightarrow>
        completed_books (fst (scrape_book env s u)) + int (length (failed_urls (fst (scrape_book env s u))))
          = completed_books s + int (length (failed_urls s)) + 1)"
  using scrape_book_cases[of env s u] by (auto simp: add_failed_def split: if_splits)

lemma gather_completed_mono:
  "completed_books s \<le> completed_books (gather env s us)"
proof (induction us arbitrary: s)
  case Nil
  then show ?case by simp
next
  case (Cons u us)
  have "completed_books s \<le> completed_books (fst (scrape_book env s u))"
    by (simp add: scrape_book_counts)
  also have "\<dots> \<le> completed_books (gather env (fst (scrape_book env s u)) us)"
    by (rule Cons.IH)
  finally show ?case by simp
qed

lemma gather_failed_subset:
  "set (failed_urls s) \<subseteq> set (failed_urls (gather env s us))
   \<and> set (failed_urls (gather env s us)) \<subseteq> set (failed_urls s) \<union> set us"
proof (induction us arbitrary: s)
  case Nil
  then show ?case by simp
next
  case (Cons u us)
  from Cons.IH[of "fst (scrape_book env s u)"] scrape_book_counts[of s env u]
  show ?case by auto
qed

lemma gather_count_le:
  "completed_books (gather env s us) + int (length (failed_urls (gather env s us)))
     \<le> completed_books s + int (length (failed_urls s)) + int (length us)"
proof (induction us arbitrary: s)
  case Nil
  then show ?case by simp
next
  case (Cons u us)
  from Cons.IH[of "fst (scrape_book env s u)"] scrape_book_counts[of s env u]
  show ?case by simp
qed

lemma gather_count_eq:
  "distinct us \<Longrightarrow> set us \<inter> set (failed_urls s) = {} \<Longrightarrow>
   completed_books (gather env s us) + int (length (failed_urls (gather env s us)))
     = completed_books s + int (length (failed_urls s)) + int (length us)"
proof (induction us arbitrary: s)
  case Nil
  then show ?case by simp
next
  case (Cons u us)
  let ?s = "fst (scrape_book env s u)"
  have u: "u \<notin> set (failed_urls s)" using Cons.prems by auto
  have "set (failed_urls ?s) \<subseteq> insert u (set (failed_urls s))"
    by (simp add: scrape_book_counts)
  then have "set us \<inter> set (failed_urls ?s) = {}"
    using Cons.prems by auto
  with Cons.IH[of ?s] Cons.prems scrape_book_counts[of s env u] u
  show ?case by simp
qed

lemma gather_all_fail:
  "(\<And>u t. u \<in> set us \<Longrightarrow> snd (scrape_book env t u) = None) \<Longrightarrow>
   completed_books (gather env s us) = completed_books s
   \<and> set (failed_urls (gather env s us)) = set (failed_urls s) \<union> set us"
proof (induction us arbitrary: s)
  case Nil
  then show ?case by simp
next
  case (Cons u us)
  have "snd (scrape_book env s u) = None" using Cons.prems by simp
  then have eq: "fst (scrape_book env s u) = add_failed s u"
    using scrape_book_cases[of env s u] by auto
  from Cons.IH[of "add_failed s u"] Cons.prems eq
  show ?case by (auto simp: add_failed_def)
qed

lemma save_history:
  "history (fst (save_crawl_progress env st p))
     = history st @ (if progress_write env (write_calls st) then [p] else [])"
  by (simp add: save_crawl_progress_def)

lemma batch_loop_step:
  "i < length tasks \<Longrightarrow>
   batch_loop env tasks i (s, st) =
     batch_loop env tasks (i + batch_size)
       (gather env s (take batch_size (drop i tasks)),
        fst (save_crawl_progress env st
               (progress_of (gather env s (take batch_size (drop i tasks))))))"
  by (subst batch_loop.simps) (simp add: Let_def progress_of_def)

lemma batch_loop_done:
  "\<not> i < length tasks \<Longrightarrow> batch_loop env tasks i (s, st) = (s, st)"
  by (subst batch_loop.simps) simp

lemma batch_loop_char:
  "\<exists>ps. fst (batch_loop env tasks i (s, st)) = gather env s (drop i tasks)
     \<and> history (snd (batch_loop env tasks i (s, st)))
         = history st @ map (\<lambda>p. progress_of (gather env s p)) ps
     \<and> (\<forall>p \<in> set ps. prefix p (drop i tasks))
     \<and> sorted_wrt prefix ps"
proof (induction env tasks i "(s, st)" arbitrary: s st rule: batch_loop.induct)
  case (1 env tasks i s st)
  show ?case
  proof (cases "i < length tasks")
    case False
    then show ?thesis
      by (intro exI[of _ "[]"]) (simp add: batch_loop_done)
  next
    case True
    let ?xs = "drop i tasks"
    let ?b = "take batch_size ?xs"
    let ?s1 = "gather env s ?b"
    let ?st1 = "fst (save_crawl_progress env st (progress_of ?s1))"
    have step: "batch_loop env tasks i (s, st) = batch_loop env tasks (i + batch_size) (?s1, ?st1)"
      using True by (rule batch_loop_step)
    have IH: "\<exists>ps. fst (batch_loop env tasks (i + batch_size) (?s1, ?st1))
                  = gather env ?s1 (drop (i + batch_size) tasks)
     \<and> history (snd (batch_loop env tasks (i + batch_size) (?s1, ?st1)))
         = history ?st1 @ map (\<lambda>p. progress_of (gather env ?s1 p)) ps
     \<and> (\<forall>p \<in> set ps. prefix p (drop (i + batch_size) tasks))
     \<and> sorted_wrt prefix ps"
      by (rule "1.hyps"[OF True refl refl _ refl]) (simp add: progress_of_def)
    then obtain ps where ps:
      "fst (batch_loop env tasks (i + batch_size) (?s1, ?st1))
         = gather env ?s1 (drop (i + batch_size) tasks)"
      "history (snd (batch_loop env tasks (i + batch_size) (?s1, ?st1)))
         = history ?st1 @ map (\<lambda>p. progress_of (gather env ?s1 p)) ps"
      "\<forall>p \<in> set ps. prefix p (drop (i + batch_size) tasks)"
      "sorted_wrt prefix ps"
      by blast
    have "drop (i + batch_size) tasks = drop batch_size ?xs"
      by (simp add: add.commute)
    then have split: "?xs = ?b @ drop (i + batch_size) tasks"
      by (simp only: append_take_drop_id)
    let ?qs = "(if progress_write env (write_calls st) then [?b] else []) @ map ((@) ?b) ps"
    have a: "fst (batch_loop env tasks i (s, st)) = gather env s ?xs"
      using ps(1) step gather_append[of env s ?b "drop (i + batch_size) tasks"] split by simp
    have b: "history (snd (batch_loop env tasks i (s, st)))
         = history st @ map (\<lambda>p. progress_of (gather env s p)) ?qs"
      using ps(2) step by (simp add: save_history gather_append o_def)
    have c: "\<forall>p \<in> set ?qs. prefix p ?xs"
    proof
      fix p assume "p \<in> set ?qs"
      then consider "p = ?b" | q where "q \<in> set ps" "p = ?b @ q"
        by (auto split: if_splits)
      then show "prefix p ?xs"
      proof cases
        case 1
        then show ?thesis by (simp add: take_is_prefix)
      next
        case 2
        with ps(3) have "prefix q (drop (i + batch_size) tasks)" by blast
        then have "prefix (?b @ q) (?b @ drop (i + batch_size) tasks)" by simp
        with split 2 show ?thesis by simp
      qed
    qed
    have d: "sorted_wrt prefix ?qs"
      using ps(4) by (auto simp: sorted_wrt_append sorted_wrt_map)
    from a b c d show ?thesis by blast
  qed
qed

lemma progress_of_final:
  "\<lparr>total_pages = total_books s, completed_pages = completed_books s,
    failed_pages = failed_urls s,
    status = (if failed_urls s = [] then SUCCESS else PARTIAL)\<rparr> = progress_of s"
  by (simp add: progress_of_def)

lemma crawl_char:
  assumes "run_crawler env cfg doc resume = Some (Inr r)"
  shows "\<exists>D ps. get_all_book_urls env (BookScraper_init cfg) = Some (Inr D)
     \<and> db_connect env
     \<and> scheduled r = (if resume then filter (\<lambda>u. u \<notin> set (stored_urls env)) D else D)
     \<and> final_scraper r
         = gather env ((BookScraper_init cfg)\<lparr>total_books := int (length D)\<rparr>) (scheduled r)
     \<and> progress r = progress_of (final_scraper r)
     \<and> history (final_store r)
         = map (\<lambda>p. progress_of (gather env ((BookScraper_init cfg)\<lparr>total_books := int (length D)\<rparr>) p)) ps
     \<and> (\<forall>p \<in> set ps. prefix p (scheduled r))
     \<and> sorted_wrt prefix ps"
proof -
  let ?self = "BookScraper_init cfg"
  let ?st = "\<lparr>crawl_progress = doc, history = [], write_calls = 0\<rparr>"
  from assms have conn: "db_connect env"
    by (auto simp: run_crawler_def crawl_all_books_def split: if_splits)
  from assms conn obtain D where D: "get_all_book_urls env ?self = Some (Inr D)"
    by (auto simp: run_crawler_def crawl_all_books_def split: option.splits sum.splits)
  let ?s1 = "?self\<lparr>total_books := int (length D)\<rparr>"
  let ?tasks = "if resume then filter (\<lambda>u. u \<notin> set (stored_urls env)) D else D"
  let ?res = "batch_loop env ?tasks 0 (?s1, ?st)"
  obtain ps where ps:
    "fst ?res = gather env ?s1 (drop 0 ?tasks)"
    "history (snd ?res) = history ?st @ map (\<lambda>p. progress_of (gather env ?s1 p)) ps"
    "\<forall>p \<in> set ps. prefix p (drop 0 ?tasks)"
    "sorted_wrt prefix ps"
    using batch_loop_char[of env ?tasks 0 ?s1 ?st] by blast
  let ?s2 = "fst ?res"
  let ?st2 = "snd ?res"
  have r: "r = \<lparr>progress = progress_of ?s2, scheduled = ?tasks, final_scraper = ?s2,
                final_store = fst (save_crawl_progress env ?st2 (progress_of ?s2))\<rparr>"
    using assms[symmetric] conn D
    by (simp add: run_crawler_def crawl_all_books_def Let_def progress_of_final case_prod_beta
        split del: if_split cong: if_cong)
  let ?qs = "ps @ (if progress_write env (write_calls ?st2) then [?tasks] else [])"
  have h: "history (final_store r) = map (\<lambda>p. progress_of (gather env ?s1 p)) ?qs"
    using ps(1,2) by (simp add: r save_history)
  have pre: "\<forall>p \<in> set ?qs. prefix p (scheduled r)"
    using ps(3) by (auto simp: r)
  have srt: "sorted_wrt prefix ?qs"
    using ps(3,4) by (auto simp: sorted_wrt_append)
  have "scheduled r = ?tasks" "final_scraper r = gather env ?s1 (scheduled r)"
       "progress r = progress_of (final_scraper r)"
    using ps(1) by (simp_all add: r)
  with conn D h pre srt show ?thesis by blast
qed

text \<open>After the discovery has returned, the rest of the crawl returns.\<close>

lemma crawl_returns:
  assumes "db_connect env" and "get_all_book_urls env (BookScraper_init cfg) = Some (Inr D)"
  shows "\<exists>r. run_crawler env cfg doc resume = Some (Inr r)"
  using assms
  by (simp add: run_crawler_def crawl_all_books_def Let_def split: prod.splits)

lemma prefix_snapshot:
  assumes "prefix p tasks" and "int (length tasks) \<le> total_books s"
    and "completed_books s = 0" and "failed_urls s = []"
  shows "0 \<le> completed_pages (progress_of (gather env s p))
     \<and> completed_pages (progress_of (gather env s p)) \<le> total_pages (progress_of (gather env s p))
     \<and> completed_pages (progress_of (gather env s p))
          + int (length (failed_pages (progress_of (gather env s p))))
          \<le> total_pages (progress_of (gather env s p))
     \<and> (status (progress_of (gather env s p)) = PARTIAL
          \<longleftrightarrow> failed_pages (progress_of (gather env s p)) \<noteq> [])
     \<and> status (progress_of (gather env s p))
          = (if failed_pages (progress_of (gather env s p)) \<noteq> [] then PARTIAL else SUCCESS)
     \<and> status (progress_of (gather env s p)) \<noteq> FAILED"
proof -
  have len: "length p \<le> length tasks"
    using assms(1) by (rule prefix_length_le)
  have "completed_books (gather env s p) + int (length (failed_urls (gather env s p)))
          \<le> int (length p)"
    using gather_count_le[of env s p] assms(3,4) by simp
  moreover have "0 \<le> completed_books (gather env s p)"
    using gather_completed_mono[of s env p] assms(3) by simp
  moreover have "total_books (gather env s p) = total_books s"
    by (simp add: gather_frame)
  ultimately show ?thesis
    using len assms(2) by (simp add: progress_of_def)
qed

lemma prefix_completed_mono:
  assumes "prefix p q"
  shows "completed_pages (progress_of (gather env s p))
           \<le> completed_pages (progress_of (gather env s q))"
proof -
  from assms obtain z where "q = p @ z" by (auto simp: prefix_def)
  then show ?thesis
    using gather_completed_mono[of "gather env s p" env z]
    by (simp add: gather_append progress_of_def)
qed

text \<open>
  Claim C7.  In every run that returns, the completed counts of the progress documents
  that the run has written to the database, in the order of writing, never decrease, and
  none of them exceeds the completed count of the progress returned at the end.
\<close>

theorem progress_monotone:
  assumes "run_crawler env cfg doc resume = Some (Inr r)"
  shows "sorted (map completed_pages (history (final_store r)))
     \<and> (\<forall>p \<in> set (history (final_store r)). completed_pages p \<le> completed_pages (progress r))"
proof -
  from crawl_char[OF assms] obtain D ps where c:
    "scheduled r = (if resume then filter (\<lambda>u. u \<notin> set (stored_urls env)) D else D)"
    "final_scraper r
         = gather env ((BookScraper_init cfg)\<lparr>total_books := int (length D)\<rparr>) (scheduled r)"
    "progress r = progress_of (final_scraper r)"
    "history (final_store r)
         = map (\<lambda>p. progress_of (gather env ((BookScraper_init cfg)\<lparr>total_books := int (length D)\<rparr>) p)) ps"
    "\<forall>p \<in> set ps. prefix p (scheduled r)"
    "sorted_wrt prefix ps"
    by blast
  let ?s1 = "(BookScraper_init cfg)\<lparr>total_books := int (length D)\<rparr>"
  have "sorted_wrt (\<lambda>p q. completed_pages (progress_of (gather env ?s1 p))
                          \<le> completed_pages (progress_of (gather env ?s1 q))) ps"
    using c(6) by (rule sorted_wrt_mono_rel[rotated]) (simp add: prefix_completed_mono)
  then have "sorted (map completed_pages (history (final_store r)))"
    by (simp add: c(4) sorted_wrt_map o_def)
  moreover have "\<forall>p \<in> set (history (final_store r)). completed_pages p \<le> completed_pages (progress r)"
    using c(5) by (auto simp: c(2,3,4) prefix_completed_mono)
  ultimately show ?thesis by blast
qed

lemma init_counters:
  "completed_books ((BookScraper_init cfg)\<lparr>total_books := n\<rparr>) = 0
   \<and> failed_urls ((BookScraper_init cfg)\<lparr>total_books := n\<rparr>) = []
   \<and> total_books ((BookScraper_init cfg)\<lparr>total_books := n\<rparr>) = n"
  by (simp add: BookScraper_init_def)

text \<open>
  Claim C6, as the code has it.  Every progress document written during a run, and the
  progress returned at the end, has a completed count between 0 and the total, has the
  status \<^verbatim>\<open>partial\<close> exactly when its list of failed addresses is not empty, and has
  completed count plus number of failed addresses at most the total.  At the end, completed
  count plus number of failed addresses is at most the number of addresses scheduled, which
  is at most the total; it equals the number of addresses scheduled when these are
  pairwise distinct, and that number is the total when the run does not resume.
\<close>

theorem progress_bounds:
  assumes "run_crawler env cfg doc resume = Some (Inr r)"
  shows "(\<forall>p \<in> set (history (final_store r)) \<union> {progress r}.
            0 \<le> completed_pages p
          \<and> completed_pages p \<le> total_pages p
          \<and> (status p = PARTIAL \<longleftrightarrow> failed_pages p \<noteq> [])
          \<and> completed_pages p + int (length (failed_pages p)) \<le> total_pages p)
     \<and> completed_pages (progress r) + int (length (failed_pages (progress r)))
          \<le> int (length (scheduled r))
     \<and> int (length (scheduled r)) \<le> total_pages (progress r)
     \<and> (distinct (scheduled r) \<longrightarrow>
          completed_pages (progress r) + int (length (failed_pages (progress r)))
            = int (length (scheduled r)))
     \<and> (\<not> resume \<longrightarrow> int (length (scheduled r)) = total_pages (progress r))"
proof -
  from crawl_char[OF assms] obtain D ps where c:
    "scheduled r = (if resume then filter (\<lambda>u. u \<notin> set (stored_urls env)) D else D)"
    "final_scraper r
         = gather env ((BookScraper_init cfg)\<lparr>total_books := int (length D)\<rparr>) (scheduled r)"
    "progress r = progress_of (final_scraper r)"
    "history (final_store r)
         = map (\<lambda>p. progress_of (gather env ((BookScraper_init cfg)\<lparr>total_books := int (length D)\<rparr>) p)) ps"
    "\<forall>p \<in> set ps. prefix p (scheduled r)"
    by blast
  let ?s1 = "(BookScraper_init cfg)\<lparr>total_books := int (length D)\<rparr>"
  have len: "int (length (scheduled r)) \<le> total_books ?s1"
    by (simp add: c(1) init_counters)
  have snap: "0 \<le> completed_pages (progress_of (gather env ?s1 p))
     \<and> completed_pages (progress_of (gather env ?s1 p)) \<le> total_pages (progress_of (gather env ?s1 p))
     \<and> (status (progress_of (gather env ?s1 p)) = PARTIAL
          \<longleftrightarrow> failed_pages (progress_of (gather env ?s1 p)) \<noteq> [])
     \<and> completed_pages (progress_of (gather env ?s1 p))
          + int (length (failed_pages (progress_of (gather env ?s1 p))))
          \<le> total_pages (progress_of (gather env ?s1 p))"
    if "prefix p (scheduled r)" for p
    using prefix_snapshot[OF that len, of env] by (simp add: init_counters)
  have all: "\<forall>p \<in> set (history (final_store r)) \<union> {progress r}.
            0 \<le> completed_pages p
          \<and> completed_pages p \<le> total_pages p
          \<and> (status p = PARTIAL \<longleftrightarrow> failed_pages p \<noteq> [])
          \<and> completed_pages p + int (length (failed_pages p)) \<le> total_pages p"
  proof
    fix p assume "p \<in> set (history (final_store r)) \<union> {progress r}"
    then obtain q where "prefix q (scheduled r)" "p = progress_of (gather env ?s1 q)"
      using c(5) by (auto simp: c(2,3,4))
    then show "0 \<le> completed_pages p
          \<and> completed_pages p \<le> total_pages p
          \<and> (status p = PARTIAL \<longleftrightarrow> failed_pages p \<noteq> [])
          \<and> completed_pages p + int (length (failed_pages p)) \<le> total_pages p"
      using snap[of q] by simp
  qed
  have le: "completed_pages (progress r) + int (length (failed_pages (progress r)))
          \<le> int (length (scheduled r))"
    using gather_count_le[of env ?s1 "scheduled r"]
    by (simp add: c(2,3) progress_of_def init_counters)
  have tot: "total_pages (progress r) = int (length D)"
    by (simp add: c(2,3) progress_of_def gather_frame init_counters)
  have len2: "int (length (scheduled r)) \<le> total_pages (progress r)"
    using len by (simp add: tot init_counters)
  have eq: "distinct (scheduled r) \<longrightarrow>
          completed_pages (progress r) + int (length (failed_pages (progress r)))
            = int (length (scheduled r))"
    using gather_count_eq[of "scheduled r" ?s1 env]
    by (simp add: c(2,3) progress_of_def init_counters)
  have nores: "\<not> resume \<longrightarrow> int (length (scheduled r)) = total_pages (progress r)"
    by (simp add: tot c(1))
  from all le len2 eq nores show ?thesis by blast
qed

text \<open>
  Claim C10.  Every progress document written during a run, and the progress returned at
  the end, has the status \<^verbatim>\<open>partial\<close> when its list of failed addresses is not empty and
  \<^verbatim>\<open>success\<close> otherwise, never \<^verbatim>\<open>failed\<close>.  When every scheduled address fails (and there
  is one), the final status is \<^verbatim>\<open>partial\<close>, with nothing completed and every scheduled
  address in the failed list.
\<close>

theorem status_never_failed:
  assumes "run_crawler env cfg doc resume = Some (Inr r)"
  shows "(\<forall>p \<in> set (history (final_store r)) \<union> {progress r}.
            status p = (if failed_pages p \<noteq> [] then PARTIAL else SUCCESS)
          \<and> status p \<noteq> FAILED)
     \<and> (scheduled r \<noteq> [] \<and> (\<forall>u \<in> set (scheduled r). \<forall>t. snd (scrape_book env t u) = None) \<longrightarrow>
          status (progress r) = PARTIAL
          \<and> completed_pages (progress r) = 0
          \<and> set (failed_pages (progress r)) = set (scheduled r))"
proof -
  from crawl_char[OF assms] obtain D :: "url list" and ps where c:
    "final_scraper r
         = gather env ((BookScraper_init cfg)\<lparr>total_books := int (length D)\<rparr>) (scheduled r)"
    "progress r = progress_of (final_scraper r)"
    "history (final_store r)
         = map (\<lambda>p. progress_of (gather env ((BookScraper_init cfg)\<lparr>total_books := int (length D)\<rparr>) p)) ps"
    by blast
  let ?s1 = "(BookScraper_init cfg)\<lparr>total_books := int (length D)\<rparr>"
  have all: "\<forall>p \<in> set (history (final_store r)) \<union> {progress r}.
            status p = (if failed_pages p \<noteq> [] then PARTIAL else SUCCESS)
          \<and> status p \<noteq> FAILED"
    by (auto simp: c progress_of_def)
  have worst: "scheduled r \<noteq> [] \<and> (\<forall>u \<in> set (scheduled r). \<forall>t. snd (scrape_book env t u) = None) \<longrightarrow>
          status (progress r) = PARTIAL
          \<and> completed_pages (progress r) = 0
          \<and> set (failed_pages (progress r)) = set (scheduled r)"
  proof (intro impI, elim conjE)
    assume ne: "scheduled r \<noteq> []"
      and fail: "\<forall>u \<in> set (scheduled r). \<forall>t. snd (scrape_book env t u) = None"
    have g: "completed_books (gather env ?s1 (scheduled r)) = completed_books ?s1
       \<and> set (failed_urls (gather env ?s1 (scheduled r))) = set (failed_urls ?s1) \<union> set (scheduled r)"
      by (rule gather_all_fail) (simp add: fail)
    then have "set (failed_urls (final_scraper r)) = set (scheduled r)"
      by (simp add: c(1) init_counters)
    with ne have "failed_urls (final_scraper r) \<noteq> []" by auto
    with g show "status (progress r) = PARTIAL
          \<and> completed_pages (progress r) = 0
          \<and> set (failed_pages (progress r)) = set (scheduled r)"
      by (simp add: c(1,2) progress_of_def init_counters)
  qed
  from all worst show ?thesis by blast
qed

lemma fetch_same_retries:
  "max_retries t = max_retries s \<Longrightarrow> fetch_with_retry g t u r = fetch_with_retry g s u r"
proof (induction g s u r rule: fetch_with_retry.induct)
  case (1 g s u r)
  show ?case
  proof (cases rule: fetch_cases[of g u r s])
    case (ok x)
    then show ?thesis by (simp add: fetch_response)
  next
    case raised
    then show ?thesis by (simp add: fetch_other)
  next
    case exhausted
    then show ?thesis using "1.prems" by (simp add: fetch_exhausted)
  next
    case retry
    have "fetch_with_retry g t u (Suc r) = fetch_with_retry g s u (Suc r)"
      using "1.IH"[OF retry(1,2) refl] "1.prems" by simp
    moreover have "int r < max_retries t" using retry(2) "1.prems" by simp
    ultimately show ?thesis
      using retry(1,3) by (simp add: fetch_retry[of g u r t])
  qed
qed

lemma scrape_book_same_retries:
  "max_retries t = max_retries s \<Longrightarrow> snd (scrape_book env t u) = snd (scrape_book env s u)"
  by (simp add: scrape_book_def Let_def fetch_same_retries[of t s]
      split: sum.split option.split)

lemma scrape_book_outcome:
  "snd (scrape_book env t u) = None \<Longrightarrow> fst (scrape_book env t u) = add_failed t u"
  "snd (scrape_book env t u) \<noteq> None \<Longrightarrow>
     fst (scrape_book env t u) = t\<lparr>completed_books := completed_books t + 1\<rparr>"
  using scrape_book_cases[of env t u] by auto

lemma gather_exact:
  assumes "max_retries t = max_retries s0"
  shows "completed_books (gather env t us)
           = completed_books t + int (length (filter (\<lambda>u. snd (scrape_book env s0 u) \<noteq> None) us))
       \<and> set (failed_urls (gather env t us))
           = set (failed_urls t) \<union> set (filter (\<lambda>u. snd (scrape_book env s0 u) = None) us)"
  using assms
proof (induction us arbitrary: t)
  case Nil
  then show ?case by simp
next
  case (Cons u us)
  let ?t = "fst (scrape_book env t u)"
  have m: "max_retries ?t = max_retries s0"
    using Cons.prems by (simp add: scrape_book_frame)
  have IH1: "completed_books (gather env ?t us)
      = completed_books ?t + int (length (filter (\<lambda>u. snd (scrape_book env s0 u) \<noteq> None) us))"
    and IH2: "set (failed_urls (gather env ?t us))
      = set (failed_urls ?t) \<union> set (filter (\<lambda>u. snd (scrape_book env s0 u) = None) us)"
    using Cons.IH[OF m] by simp_all
  have same: "snd (scrape_book env t u) = snd (scrape_book env s0 u)"
    using Cons.prems by (rule scrape_book_same_retries)
  show ?case
  proof (cases "snd (scrape_book env s0 u) = None")
    case True
    then have "?t = add_failed t u" using same by (simp add: scrape_book_outcome)
    then have "completed_books ?t = completed_books t"
      "set (failed_urls ?t) = insert u (set (failed_urls t))"
      by (simp_all add: add_failed_def insert_absorb)
    with IH1 IH2 True show ?thesis by simp
  next
    case False
    then have "?t = t\<lparr>completed_books := completed_books t + 1\<rparr>"
      using same by (simp add: scrape_book_outcome)
    then have "completed_books ?t = completed_books t + 1"
      "failed_urls ?t = failed_urls t"
      by simp_all
    moreover from False obtain b where "snd (scrape_book env s0 u) = Some b" by blast
    ultimately show ?thesis using IH1 IH2 by simp
  qed
qed

text \<open>
  Claim C4.  When the database can be reached and the discovery returns the list \<open>D\<close>,
  a run with \<^verbatim>\<open>resume=True\<close> returns, and the addresses it schedules are those of \<open>D\<close> that
  are not addresses of stored books, in the order of \<open>D\<close>: an address of \<open>D\<close> is scheduled
  exactly when it is not in the store.  The run scrapes the scheduled addresses and no
  other: its final counters are those of scraping them one by one; the completed count it
  reports is the number of scheduled addresses whose scrape yields a book, and the failed
  addresses it reports are exactly the addresses of \<open>D\<close> outside the store whose scrape
  yields none.  When no address occurs twice in \<open>D\<close>, completed and failed together are as
  many as there are addresses of \<open>D\<close> outside the store.  Nothing but the addresses of the
  stored books enters, so how old the stored records are makes no difference.
\<close>

theorem resume_processes_difference:
  assumes "db_connect env"
    and "get_all_book_urls env (BookScraper_init cfg) = Some (Inr D)"
  shows "\<exists>r. run_crawler env cfg doc True = Some (Inr r)
     \<and> scheduled r = filter (\<lambda>u. u \<notin> set (stored_urls env)) D
     \<and> set (scheduled r) = set D - set (stored_urls env)
     \<and> (\<forall>u \<in> set D. u \<in> set (scheduled r) \<longleftrightarrow> u \<notin> set (stored_urls env))
     \<and> final_scraper r
         = gather env ((BookScraper_init cfg)\<lparr>total_books := int (length D)\<rparr>) (scheduled r)
     \<and> set (failed_pages (progress r)) \<subseteq> set D - set (stored_urls env)
     \<and> completed_pages (progress r)
         = int (length (filter (\<lambda>u. snd (scrape_book env (BookScraper_init cfg) u) \<noteq> None)
                  (filter (\<lambda>u. u \<notin> set (stored_urls env)) D)))
     \<and> set (failed_pages (progress r))
         = {u \<in> set D - set (stored_urls env). snd (scrape_book env (BookScraper_init cfg) u) = None}
     \<and> (distinct D \<longrightarrow>
          completed_pages (progress r) + int (length (failed_pages (progress r)))
            = int (card (set D - set (stored_urls env))))"
proof -
  let ?s0 = "BookScraper_init cfg"
  let ?s1 = "?s0\<lparr>total_books := int (length D)\<rparr>"
  from crawl_returns[OF assms] obtain r where r: "run_crawler env cfg doc True = Some (Inr r)"
    by blast
  from crawl_char[OF r] assms(2) have c:
    "scheduled r = filter (\<lambda>u. u \<notin> set (stored_urls env)) D"
    "final_scraper r = gather env ?s1 (scheduled r)"
    "progress r = progress_of (final_scraper r)"
    by auto
  have sub: "set (failed_pages (progress r)) \<subseteq> set (scheduled r)"
    using gather_failed_subset[of ?s1 env "scheduled r"]
    by (simp add: c(2,3) progress_of_def init_counters)
  have m: "max_retries ?s1 = max_retries ?s0" by simp
  note ex = gather_exact[OF m, of env "scheduled r"]
  have compl: "completed_pages (progress r)
         = int (length (filter (\<lambda>u. snd (scrape_book env ?s0 u) \<noteq> None)
                  (filter (\<lambda>u. u \<notin> set (stored_urls env)) D)))"
    using ex by (simp add: c progress_of_def init_counters)
  have "{u \<in> set D - set (stored_urls env). snd (scrape_book env ?s0 u) = None}
      = set (filter (\<lambda>u. snd (scrape_book env ?s0 u) = None)
               (filter (\<lambda>u. u \<notin> set (stored_urls env)) D))"
    by (simp only: set_filter) blast
  then have failed: "set (failed_pages (progress r))
         = {u \<in> set D - set (stored_urls env). snd (scrape_book env ?s0 u) = None}"
    using ex by (simp add: c progress_of_def init_counters)
  have cnt: "distinct D \<longrightarrow>
          completed_pages (progress r) + int (length (failed_pages (progress r)))
            = int (card (set D - set (stored_urls env)))"
  proof
    assume d: "distinct D"
    then have ds: "distinct (scheduled r)" by (simp add: c(1))
    have "completed_pages (progress r) + int (length (failed_pages (progress r)))
            = int (length (scheduled r))"
      using gather_count_eq[of "scheduled r" ?s1 env] ds
      by (simp add: c(2,3) progress_of_def init_counters)
    moreover have "length (scheduled r) = card (set (scheduled r))"
      using ds by (simp add: distinct_card)
    moreover have "set (scheduled r) = set D - set (stored_urls env)"
      by (auto simp: c(1))
    ultimately show "completed_pages (progress r) + int (length (failed_pages (progress r)))
            = int (card (set D - set (stored_urls env)))"
      by simp
  qed
  have basic: "scheduled r = filter (\<lambda>u. u \<notin> set (stored_urls env)) D
     \<and> set (scheduled r) = set D - set (stored_urls env)
     \<and> (\<forall>u \<in> set D. u \<in> set (scheduled r) \<longleftrightarrow> u \<notin> set (stored_urls env))
     \<and> final_scraper r = gather env ?s1 (scheduled r)
     \<and> set (failed_pages (progress r)) \<subseteq> set D - set (stored_urls env)"
    using c sub by auto
  from r basic compl failed cnt show ?thesis by blast
qed

lemma discover_first_page_fails:
  assumes "fst (fetch_with_retry (client_get env) self u 0) = Inr h" and "h = None \<or> h = Some []"
  shows "discover env self (Some u) acc = Some (Inr acc)"
  using assms by (subst discover.simps) auto

text \<open>
  Claim C1, as the code has it.  When the database can be reached and
  \<^verbatim>\<open>fetch_with_retry\<close> returns no content for the first catalogue page (\<^verbatim>\<open>None\<close> or the
  empty string), the discovery returns the empty list, and the run returns normally: it
  schedules nothing, and its final progress has total 0, completed 0, no failed address
  and the status \<^verbatim>\<open>success\<close>; that progress is the one document the run writes.
\<close>

theorem first_page_failure_is_soft:
  assumes "db_connect env"
    and "fst (fetch_with_retry (client_get env) (BookScraper_init cfg)
               (urljoin env (settings_base_url cfg) ''catalogue/page-1.html'') 0) = Inr h"
    and "h = None \<or> h = Some []"
  shows "get_all_book_urls env (BookScraper_init cfg) = Some (Inr [])
     \<and> (\<exists>r. run_crawler env cfg doc resume = Some (Inr r)
          \<and> scheduled r = []
          \<and> progress r = \<lparr>total_pages = 0, completed_pages = 0, failed_pages = [], status = SUCCESS\<rparr>
          \<and> history (final_store r) = (if progress_write env 0 then [progress r] else []))"
proof -
  have b: "base_url (BookScraper_init cfg) = settings_base_url cfg"
    by (simp add: BookScraper_init_def)
  have d: "get_all_book_urls env (BookScraper_init cfg) = Some (Inr [])"
    unfolding get_all_book_urls_def b using assms(2,3) by (rule discover_first_page_fails)
  have "run_crawler env cfg doc resume
      = Some (Inr \<lparr>progress = progress_of ((BookScraper_init cfg)\<lparr>total_books := 0\<rparr>),
                   scheduled = [],
                   final_scraper = (BookScraper_init cfg)\<lparr>total_books := 0\<rparr>,
                   final_store = fst (save_crawl_progress env
                      \<lparr>crawl_progress = doc, history = [], write_calls = 0\<rparr>
                      (progress_of ((BookScraper_init cfg)\<lparr>total_books := 0\<rparr>)))\<rparr>)"
    using assms(1)
    by (simp add: run_crawler_def crawl_all_books_def d batch_loop_done progress_of_final Let_def)
  then show ?thesis
    using d by (simp add: progress_of_def save_history BookScraper_init_def)
qed

section \<open>The crawl on the concrete inputs\<close>

lemma first_page_default:
  "urljoin env_demo (base_url (BookScraper_init default_settings)) ''catalogue/page-1.html''
     = ''https://books.toscrape.com/catalogue/page-1.html''"
  by (simp add: env_demo_def BookScraper_init_def default_settings_def)

lemma discover_demo:
  "get_all_book_urls env_demo (BookScraper_init default_settings)
     = Some (Inr [''book-a'', ''book-b'', ''book-c''])"
  unfolding get_all_book_urls_def first_page_default
  apply (subst discover.simps)
  apply (simp add: fetch_response env_demo_def demo_net_def)
  apply (subst discover.simps)
  apply simp
  done

lemma fetch_demo_a: "fst (fetch_with_retry demo_net s ''book-a'' 0) = Inr (Some ''A'')"
  by (simp add: fetch_response demo_net_def)

lemma fetch_demo_b: "fst (fetch_with_retry demo_net s ''book-b'' 0) = Inr (Some ''B'')"
  by (simp add: fetch_response demo_net_def)

lemma fetch_demo_c: "fst (fetch_with_retry demo_net s ''book-c'' 0) = Inr None"
  using fetch_all_fail[of 0 s demo_net "''book-c''"] by (simp add: demo_net_def)

lemma scrape_demo_a:
  "fst (scrape_book env_demo s ''book-a'') = s\<lparr>completed_books := completed_books s + 1\<rparr>"
  by (simp add: scrape_book_def fetch_demo_a env_demo_def)

lemma scrape_demo_b:
  "fst (scrape_book env_demo s ''book-b'') = add_failed s ''book-b''"
  by (simp add: scrape_book_def fetch_demo_b env_demo_def)

lemma scrape_demo_c:
  "fst (scrape_book env_demo s ''book-c'') = add_failed s ''book-c''"
  by (simp add: scrape_book_def fetch_demo_c env_demo_def)

lemma run_demo:
  "map_option (map_sum id (\<lambda>r. (progress r, scheduled r, history (final_store r))))
     (run_crawler env_demo default_settings None False)
   = Some (Inr (\<lparr>total_pages = 3, completed_pages = 1, failed_pages = [''book-b'', ''book-c''],
                  status = PARTIAL\<rparr>,
                [''book-a'', ''book-b'', ''book-c''],
                [\<lparr>total_pages = 3, completed_pages = 1, failed_pages = [''book-b'', ''book-c''],
                  status = PARTIAL\<rparr>,
                 \<lparr>total_pages = 3, completed_pages = 1, failed_pages = [''book-b'', ''book-c''],
                  status = PARTIAL\<rparr>]))"
  apply (simp add: run_crawler_def crawl_all_books_def discover_demo)
  apply (simp add: batch_loop_step batch_loop_done batch_size_def scrape_demo_a scrape_demo_b scrape_demo_c
      add_failed_def progress_of_def save_crawl_progress_def BookScraper_init_def default_settings_def Let_def)
  apply (simp add: env_demo_def)
  done

text \<open>
  With the network down, every attempt for the first catalogue page fails, and the run
  ends with the status \<^verbatim>\<open>success\<close>.
\<close>

theorem first_page_failure_counterexample:
  "map_option (map_sum id progress) (run_crawler env_down default_settings None False)
     = Some (Inr \<lparr>total_pages = 0, completed_pages = 0, failed_pages = [], status = SUCCESS\<rparr>)"
proof -
  have d: "get_all_book_urls env_down (BookScraper_init default_settings) = Some (Inr [])"
    unfolding get_all_book_urls_def
    by (rule discover_first_page_fails[where h = None]) (simp_all add: env_down_def fetch_net_down)
  show ?thesis
    by (simp add: run_crawler_def crawl_all_books_def d batch_loop_done Let_def)
       (simp add: env_down_def BookScraper_init_def)
qed

theorem first_page_failure_is_soft_witness:
  "get_all_book_urls env_down (BookScraper_init default_settings) = Some (Inr [])
   \<and> (\<exists>r. run_crawler env_down default_settings None True = Some (Inr r)
        \<and> scheduled r = []
        \<and> progress r = \<lparr>total_pages = 0, completed_pages = 0, failed_pages = [], status = SUCCESS\<rparr>
        \<and> history (final_store r) = [progress r])"
proof -
  have c: "db_connect env_down" by (simp add: env_down_def)
  have f: "fst (fetch_with_retry (client_get env_down) (BookScraper_init default_settings)
               (urljoin env_down (settings_base_url default_settings) ''catalogue/page-1.html'') 0)
             = Inr None"
    by (simp add: env_down_def fetch_net_down)
  have w: "progress_write env_down 0" by (simp add: env_down_def)
  show ?thesis
    using first_page_failure_is_soft[OF c f, of None True] w by simp
qed

lemma conn_demo: "db_connect env_demo"
  by (simp add: env_demo_def)

lemma stored_demo: "stored_urls env_demo = [''book-a'']"
  by (simp add: env_demo_def)

lemma discover_demo_b:
  "get_all_book_urls env_demo_b (BookScraper_init default_settings)
     = Some (Inr [''book-a'', ''book-b'', ''book-c''])"
proof -
  have p: "urljoin env_demo_b (base_url (BookScraper_init default_settings)) ''catalogue/page-1.html''
             = ''https://books.toscrape.com/catalogue/page-1.html''"
    by (simp add: env_demo_b_def env_demo_def BookScraper_init_def default_settings_def)
  show ?thesis
    unfolding get_all_book_urls_def p
    apply (subst discover.simps)
    apply (simp add: fetch_response env_demo_b_def env_demo_def demo_net_def)
    apply (subst discover.simps)
    apply simp
    done
qed

lemma scrape_demo_b_outcomes:
  "snd (scrape_book env_demo_b s ''book-a'') \<noteq> None"
  "snd (scrape_book env_demo_b s ''book-b'') = None"
  "snd (scrape_book env_demo_b s ''book-c'') = None"
  by (simp_all add: scrape_book_def fetch_demo_a fetch_demo_b fetch_demo_c env_demo_b_def env_demo_def
      Let_def)

lemma collect_as_filter:
  "{u \<in> set D - set S. P u} = set (filter P (filter (\<lambda>u. u \<notin> set S) D))"
  by (simp only: set_filter) blast

text \<open>
  The same catalogue with the second book in the store: the first and the third address
  are scheduled, the first is scraped and counted as completed, the third is requested
  and fails, and the stored one is neither.
\<close>

theorem resume_processes_difference_witness:
  "\<exists>r. run_crawler env_demo_b default_settings None True = Some (Inr r)
     \<and> scheduled r = [''book-a'', ''book-c'']
     \<and> completed_pages (progress r) = 1
     \<and> set (failed_pages (progress r)) = {''book-c''}
     \<and> completed_pages (progress r) + int (length (failed_pages (progress r))) = 2"
proof -
  let ?D = "[''book-a'', ''book-b'', ''book-c'']"
  let ?s0 = "BookScraper_init default_settings"
  have conn: "db_connect env_demo_b" by (simp add: env_demo_b_def env_demo_def)
  have st: "stored_urls env_demo_b = [''book-b'']" by (simp add: env_demo_b_def)
  have sched: "filter (\<lambda>u. u \<notin> set (stored_urls env_demo_b)) ?D = [''book-a'', ''book-c'']"
    by (simp add: st)
  have dist: "distinct ?D" by simp
  have diff: "set ?D - set (stored_urls env_demo_b) = set [''book-a'', ''book-c'']"
    unfolding sched[symmetric] by (simp only: set_filter) blast
  have card: "card (set ?D - set (stored_urls env_demo_b)) = 2"
    unfolding diff by (simp add: distinct_card[symmetric])
  obtain r where all:
    "run_crawler env_demo_b default_settings None True = Some (Inr r)
     \<and> scheduled r = filter (\<lambda>u. u \<notin> set (stored_urls env_demo_b)) ?D
     \<and> set (scheduled r) = set ?D - set (stored_urls env_demo_b)
     \<and> (\<forall>u \<in> set ?D. u \<in> set (scheduled r) \<longleftrightarrow> u \<notin> set (stored_urls env_demo_b))
     \<and> final_scraper r
         = gather env_demo_b (?s0\<lparr>total_books := int (length ?D)\<rparr>) (scheduled r)
     \<and> set (failed_pages (progress r)) \<subseteq> set ?D - set (stored_urls env_demo_b)
     \<and> completed_pages (progress r)
         = int (length (filter (\<lambda>u. snd (scrape_book env_demo_b ?s0 u) \<noteq> None)
                  (filter (\<lambda>u. u \<notin> set (stored_urls env_demo_b)) ?D)))
     \<and> set (failed_pages (progress r))
         = {u \<in> set ?D - set (stored_urls env_demo_b). snd (scrape_book env_demo_b ?s0 u) = None}
     \<and> (distinct ?D \<longrightarrow>
          completed_pages (progress r) + int (length (failed_pages (progress r)))
            = int (card (set ?D - set (stored_urls env_demo_b))))"
    using resume_processes_difference[OF conn discover_demo_b, of None] by (rule exE)
  have r: "run_crawler env_demo_b default_settings None True = Some (Inr r)"
    using all by (rule conjunct1)
  have s: "scheduled r = [''book-a'', ''book-c'']"
    using all sched by (simp only: )
  have c: "completed_pages (progress r) = 1"
    using all unfolding sched by (simp add: scrape_demo_b_outcomes)
  have f: "set (failed_pages (progress r)) = {''book-c''}"
    using all unfolding collect_as_filter sched by (simp add: scrape_demo_b_outcomes)
  have n: "completed_pages (progress r) + int (length (failed_pages (progress r))) = 2"
    using all dist unfolding card by (simp only: simp_thms) simp
  from r s c f n show ?thesis by (intro exI[of _ r] conjI)
qed

text \<open>
  A run with \<^verbatim>\<open>resume=True\<close> that finishes: three addresses are discovered, one is
  stored already, the other two fail.  At the end completed count plus number of failed
  addresses is 2, and the total is 3.
\<close>

theorem progress_equality_counterexample:
  "map_option (map_sum id progress) (run_crawler env_demo default_settings None True)
     = Some (Inr \<lparr>total_pages = 3, completed_pages = 0, failed_pages = [''book-b'', ''book-c''],
                  status = PARTIAL\<rparr>)
   \<and> (0::int) + int (length [''book-b'', ''book-c'']) < 3"
  apply (simp add: run_crawler_def crawl_all_books_def discover_demo stored_demo conn_demo)
  apply (simp add: batch_loop_step batch_loop_done batch_size_def scrape_demo_a scrape_demo_b scrape_demo_c
      add_failed_def progress_of_def save_crawl_progress_def BookScraper_init_def default_settings_def Let_def)
  done

theorem progress_bounds_witness:
  "\<exists>r. run_crawler env_demo default_settings None False = Some (Inr r)
     \<and> distinct (scheduled r)
     \<and> total_pages (progress r) = 3
     \<and> completed_pages (progress r) \<le> 3
     \<and> completed_pages (progress r) + int (length (failed_pages (progress r))) = 3"
proof -
  obtain r where r: "run_crawler env_demo default_settings None False = Some (Inr r)"
    using crawl_returns[OF conn_demo discover_demo] by blast
  from crawl_char[OF r] have s: "scheduled r = [''book-a'', ''book-b'', ''book-c'']"
    by (auto simp: discover_demo)
  then have d: "distinct (scheduled r)" by simp
  from progress_bounds[OF r] d s
  have "total_pages (progress r) = 3"
    "completed_pages (progress r) + int (length (failed_pages (progress r))) = 3"
    "completed_pages (progress r) \<le> total_pages (progress r)"
    by auto
  with r d show ?thesis by auto
qed

lemma page1_first:
  "urljoin env_allfail (base_url (BookScraper_init default_settings)) ''catalogue/page-1.html'' = page1"
  by (simp add: env_allfail_def env_demo_def BookScraper_init_def default_settings_def page1_def)

lemma discover_allfail:
  "get_all_book_urls env_allfail (BookScraper_init default_settings)
     = Some (Inr [''book-a'', ''book-b'', ''book-c''])"
  unfolding get_all_book_urls_def page1_first
  apply (subst discover.simps)
  apply (simp add: fetch_response env_allfail_def env_demo_def page1_def)
  apply (subst discover.simps)
  apply simp
  done

lemma scrape_allfail:
  assumes "u \<noteq> page1"
  shows "snd (scrape_book env_allfail t u) = None"
proof -
  have "fst (fetch_with_retry (client_get env_allfail) t u 0) = Inr None"
    using fetch_all_fail[of 0 t "client_get env_allfail" u] assms
    by (simp add: env_allfail_def)
  then show ?thesis by (simp add: scrape_book_def)
qed

theorem status_never_failed_witness:
  "\<exists>r. run_crawler env_allfail default_settings None False = Some (Inr r)
     \<and> scheduled r = [''book-a'', ''book-b'', ''book-c'']
     \<and> status (progress r) = PARTIAL
     \<and> completed_pages (progress r) = 0
     \<and> set (failed_pages (progress r)) = {''book-a'', ''book-b'', ''book-c''}"
proof -
  have conn: "db_connect env_allfail"
    by (simp add: env_allfail_def env_demo_def)
  obtain r where r: "run_crawler env_allfail default_settings None False = Some (Inr r)"
    using crawl_returns[OF conn discover_allfail] by blast
  from crawl_char[OF r] have s: "scheduled r = [''book-a'', ''book-b'', ''book-c'']"
    by (auto simp: discover_allfail)
  have fail: "\<forall>u \<in> set (scheduled r). \<forall>t. snd (scrape_book env_allfail t u) = None"
    by (simp add: s scrape_allfail page1_def)
  have ne: "scheduled r \<noteq> []" by (simp add: s)
  have "scheduled r \<noteq> [] \<and> (\<forall>u \<in> set (scheduled r). \<forall>t. snd (scrape_book env_allfail t u) = None) \<longrightarrow>
          status (progress r) = PARTIAL
          \<and> completed_pages (progress r) = 0
          \<and> set (failed_pages (progress r)) = set (scheduled r)"
    using status_never_failed[OF r] by (rule conjunct2)
  with ne fail have "status (progress r) = PARTIAL \<and> completed_pages (progress r) = 0
        \<and> set (failed_pages (progress r)) = set (scheduled r)"
    by (rule_tac mp) simp_all
  moreover have "set (scheduled r) = {''book-a'', ''book-b'', ''book-c''}"
    by (simp add: s)
  ultimately show ?thesis using r s by (intro exI[of _ r]) simp
qed

lemma gather_completed_count:
  assumes "\<And>u t. u \<in> set us \<Longrightarrow>
             completed_books (fst (scrape_book env t u)) = completed_books t + (if good u then 1 else 0)"
  shows "completed_books (gather env s us) = completed_books s + int (length (filter good us))"
  using assms
proof (induction us arbitrary: s)
  case Nil
  then show ?case by simp
next
  case (Cons u us)
  have "completed_books (gather env (fst (scrape_book env s u)) us)
      = completed_books (fst (scrape_book env s u)) + int (length (filter good us))"
    by (rule Cons.IH) (simp add: Cons.prems)
  moreover have "completed_books (fst (scrape_book env s u))
      = completed_books s + (if good u then 1 else 0)"
    by (rule Cons.prems) simp
  ultimately show ?case by simp
qed

lemma big_urls_not_page1: "u \<in> set big_urls \<Longrightarrow> u \<noteq> page1"
proof
  assume "u \<in> set big_urls" and "u = page1"
  then obtain n where "page1 = replicate n CHR ''x''"
    by (auto simp: big_urls_def)
  then have "set page1 = set (replicate n CHR ''x'')"
    by (rule arg_cong)
  then have "set page1 \<subseteq> {CHR ''x''}"
    using set_replicate_conv_if[of n "CHR ''x''"] by (cases "n = 0") simp_all
  moreover have "CHR ''h'' \<in> set page1"
    by (simp add: page1_def)
  ultimately show False by auto
qed

lemma scrape_big:
  assumes "u \<in> set big_urls"
  shows "completed_books (fst (scrape_book env_big t u))
           = completed_books t + (if even (length u) then 1 else 0)"
proof -
  have ne: "u \<noteq> page1" using assms by (rule big_urls_not_page1)
  have nonempty: "u \<noteq> []" using assms by (auto simp: big_urls_def)
  show ?thesis
  proof (cases "even (length u)")
    case True
    then have "fst (fetch_with_retry (client_get env_big) t u 0) = Inr (Some ''ok'')"
      using ne by (simp add: fetch_response env_big_def)
    then show ?thesis
      using True by (simp add: scrape_book_def env_big_def)
  next
    case False
    have "fst (fetch_with_retry (client_get env_big) t u 0) = Inr None"
      using fetch_all_fail[of 0 t "client_get env_big" u] ne False
      by (simp add: env_big_def)
    then show ?thesis
      using False by (simp add: scrape_book_def add_failed_def)
  qed
qed

lemma discover_big:
  "get_all_book_urls env_big (BookScraper_init default_settings) = Some (Inr big_urls)"
proof -
  have p: "urljoin env_big (base_url (BookScraper_init default_settings)) ''catalogue/page-1.html''
             = page1"
    by (simp add: env_big_def BookScraper_init_def default_settings_def page1_def)
  have f: "fst (fetch_with_retry (client_get env_big) s page1 0) = Inr (Some ''page-1'')" for s
    by (simp add: fetch_response env_big_def)
  have ne: "page1 \<noteq> []" by (simp add: page1_def)
  have nxt: "extract_next_page_url env_big ''page-1'' page1 = None"
    and links: "extract_book_links env_big ''page-1'' page1 = big_urls"
    by (simp_all add: env_big_def)
  show ?thesis
    unfolding get_all_book_urls_def p
    apply (subst discover.simps)
    apply (simp add: f ne nxt links)
    apply (subst discover.simps)
    apply simp
    done
qed

lemma big_counts:
  "length (filter (\<lambda>u. even (length u)) (take 50 big_urls)) = 25"
  "length (filter (\<lambda>u. even (length u)) big_urls) = 26"
  "length big_urls = 52"
  unfolding big_urls_def by code_simp+

theorem progress_monotone_witness:
  "\<exists>r. run_crawler env_big default_settings None False = Some (Inr r)
     \<and> map completed_pages (history (final_store r)) = [25, 26]
     \<and> completed_pages (progress r) = 26
     \<and> sorted (map completed_pages (history (final_store r)))"
proof -
  have conn: "db_connect env_big" by (simp add: env_big_def)
  obtain r where r: "run_crawler env_big default_settings None False = Some (Inr r)"
    using crawl_returns[OF conn discover_big] by blast
  let ?s1 = "(BookScraper_init default_settings)\<lparr>total_books := int (length big_urls)\<rparr>"
  let ?st = "\<lparr>crawl_progress = None, history = [], write_calls = 0\<rparr>"
  let ?s50 = "gather env_big ?s1 (take 50 big_urls)"
  let ?s52 = "gather env_big ?s50 (take 50 (drop 50 big_urls))"
  have c50: "completed_books ?s50 = 25"
    using gather_completed_count[of "take 50 big_urls" env_big "\<lambda>u. even (length u)" ?s1]
      scrape_big in_set_takeD[of _ 50 big_urls]
    by (simp add: big_counts init_counters)
  have "?s52 = gather env_big ?s1 big_urls"
    using gather_append[of env_big ?s1 "take 50 big_urls" "drop 50 big_urls"]
    by (simp add: big_counts)
  then have c52: "completed_books ?s52 = 26"
    using gather_completed_count[of big_urls env_big "\<lambda>u. even (length u)" ?s1] scrape_big
    by (simp add: big_counts init_counters)
  have loop: "batch_loop env_big big_urls 0 (?s1, ?st)
      = (?s52, fst (save_crawl_progress env_big
                      (fst (save_crawl_progress env_big ?st (progress_of ?s50)))
                      (progress_of ?s52)))"
    by (simp add: batch_loop_step batch_loop_done big_counts batch_size_def)
  have res: "run_crawler env_big default_settings None False
      = Some (Inr \<lparr>progress = progress_of ?s52, scheduled = big_urls, final_scraper = ?s52,
            final_store = fst (save_crawl_progress env_big
               (fst (save_crawl_progress env_big
                      (fst (save_crawl_progress env_big ?st (progress_of ?s50)))
                      (progress_of ?s52)))
               (progress_of ?s52))\<rparr>)"
    by (simp add: run_crawler_def crawl_all_books_def conn discover_big loop Let_def progress_of_final)
  let ?res = "\<lparr>progress = progress_of ?s52, scheduled = big_urls, final_scraper = ?s52,
            final_store = fst (save_crawl_progress env_big
               (fst (save_crawl_progress env_big
                      (fst (save_crawl_progress env_big ?st (progress_of ?s50)))
                      (progress_of ?s52)))
               (progress_of ?s52))\<rparr>"
  have req: "r = ?res"
    using r unfolding res by (simp only: option.inject sum.inject)
  have h: "history (final_store r) = [progress_of ?s50, progress_of ?s52]"
    by (simp add: req save_crawl_progress_def env_big_def)
  have "map completed_pages (history (final_store r)) = [25, 26]"
    using c50 c52 by (simp add: h progress_of_def)
  moreover have "completed_pages (progress r) = 26"
    using c52 by (simp add: req progress_of_def)
  ultimately show ?thesis
    using progress_monotone[OF r] r by (intro exI[of _ r]) simp
qed

end
